theory Spec2Isabelle
  imports Main "HOL-Library.Word"
begin

section \<open>Data model of far\_extractor.py\<close>

text \<open>
  A Python \<open>str\<close> is a sequence of Unicode code points, so it is modelled as a list of
  naturals (an Isabelle \<open>char\<close> is only a byte). \<open>py\<close> embeds an ASCII literal of the
  source. A \<open>bytearray\<close> is a list of 8-bit words. Python's \<open>int\<close> is \<open>int\<close>.
\<close>

type_synonym pystr = "nat list"
type_synonym byte = "8 word"

definition py :: "string \<Rightarrow> pystr" where
  "py s = map of_char s"

text \<open>The exceptions the source and the library calls it makes can raise.\<close>

datatype py_exception =
    ValueError string
  | UnicodeDecodeError
  | OSError string
  | TypeError

text \<open>The two dataclasses. The field \<open>length\<close> clashes with the list function and
  \<open>_length\<close> is no identifier, hence the two changed names.\<close>

record ManifestEntry =
  length_field :: int
  underscore_length :: int
  file_offset :: int
  file_name_length :: int
  file_name :: pystr

record Manifest =
  number_of_files :: int
  manifest_entries :: "ManifestEntry list"

text \<open>\<open>Union[str, int]\<close>, the result type of \<open>convert_bytes\<close>.\<close>

datatype py_value = PyStr pystr | PyInt int

text \<open>
  An \<open>io.BufferedReader\<close> over a regular file opened with \<open>"rb"\<close>: the bytes of the file
  as they were when it was opened, and the cursor. The cursor may stand beyond the end
  (\<open>seek\<close> allows it).
\<close>

record stream =
  data :: "byte list"
  pos :: nat

section \<open>Library calls used by the source\<close>

text \<open>\<open>bytearray(n)\<close>: \<open>n\<close> zero bytes; a negative count raises \<open>ValueError\<close>. Memory is
  not bounded in the model: no count is too large.\<close>

definition bytearray :: "int \<Rightarrow> py_exception + byte list" where
  "bytearray n = (if n < 0 then Inl (ValueError ''negative count'')
                  else Inr (replicate (nat n) 0))"

text \<open>
  \<open>stream.readinto(b)\<close>: fills \<open>b\<close> from the cursor with as many bytes as the file still
  has, at most \<open>len(b)\<close>; the rest of \<open>b\<close> keeps its contents; the cursor moves by the
  number of bytes read. Nothing is raised at end of file.
\<close>

definition readinto :: "byte list \<Rightarrow> stream \<Rightarrow> byte list \<times> stream" where
  "readinto b s =
     (let got = take (length b) (drop (pos s) (data s))
      in (got @ drop (length got) b, s\<lparr>pos := pos s + length got\<rparr>))"

text \<open>\<open>stream.seek(offset, io.SEEK_SET)\<close>: a negative offset is refused by the system.\<close>

definition seek_set :: "int \<Rightarrow> stream \<Rightarrow> py_exception + stream" where
  "seek_set offset s = (if offset < 0 then Inl (OSError ''Invalid argument'')
                        else Inr (s\<lparr>pos := nat offset\<rparr>))"

text \<open>\<open>int.from_bytes(b, "little")\<close>: the first byte is the least significant.\<close>

fun int_from_bytes_little :: "byte list \<Rightarrow> int" where
  "int_from_bytes_little [] = 0"
| "int_from_bytes_little (b # bs) = uint b + 256 * int_from_bytes_little bs"

text \<open>
  \<open>b.decode("utf-8")\<close>, the strict decoder: \<open>None\<close> stands for \<open>UnicodeDecodeError\<close>.
  Continuation bytes are \<open>0x80..0xBF\<close>; overlong forms, surrogates and code points
  above \<open>0x10FFFF\<close> are rejected through the range of the second byte.
\<close>

definition in_range :: "nat \<Rightarrow> nat \<Rightarrow> byte \<Rightarrow> bool" where
  "in_range lo hi b = (lo \<le> unat b \<and> unat b \<le> hi)"

definition second_ok3 :: "nat \<Rightarrow> byte \<Rightarrow> bool" where
  "second_ok3 c0 b1 =
     (if c0 = 0xE0 then in_range 0xA0 0xBF b1
      else if c0 = 0xED then in_range 0x80 0x9F b1
      else in_range 0x80 0xBF b1)"

definition second_ok4 :: "nat \<Rightarrow> byte \<Rightarrow> bool" where
  "second_ok4 c0 b1 =
     (if c0 = 0xF0 then in_range 0x90 0xBF b1
      else if c0 = 0xF4 then in_range 0x80 0x8F b1
      else in_range 0x80 0xBF b1)"

fun utf8_decode :: "byte list \<Rightarrow> pystr option" where
  "utf8_decode [] = Some []"
| "utf8_decode (b0 # rest) =
     (let c0 = unat b0 in
      if c0 < 0x80 then map_option (\<lambda>cs. c0 # cs) (utf8_decode rest)
      else if 0xC2 \<le> c0 \<and> c0 \<le> 0xDF then
        (case rest of
           b1 # r \<Rightarrow>
             if in_range 0x80 0xBF b1
             then map_option (\<lambda>cs. ((c0 - 0xC0) * 64 + (unat b1 - 0x80)) # cs) (utf8_decode r)
             else None
         | _ \<Rightarrow> None)
      else if 0xE0 \<le> c0 \<and> c0 \<le> 0xEF then
        (case rest of
           b1 # b2 # r \<Rightarrow>
             if second_ok3 c0 b1 \<and> in_range 0x80 0xBF b2
             then map_option
                    (\<lambda>cs. ((c0 - 0xE0) * 4096 + (unat b1 - 0x80) * 64 + (unat b2 - 0x80)) # cs)
                    (utf8_decode r)
             else None
         | _ \<Rightarrow> None)
      else if 0xF0 \<le> c0 \<and> c0 \<le> 0xF4 then
        (case rest of
           b1 # b2 # b3 # r \<Rightarrow>
             if second_ok4 c0 b1 \<and> in_range 0x80 0xBF b2 \<and> in_range 0x80 0xBF b3
             then map_option
                    (\<lambda>cs. ((c0 - 0xF0) * 262144 + (unat b1 - 0x80) * 4096
                            + (unat b2 - 0x80) * 64 + (unat b3 - 0x80)) # cs)
                    (utf8_decode r)
             else None
         | _ \<Rightarrow> None)
      else None)"

text \<open>\<open>s.replace(old, new)\<close> for one-character \<open>old\<close> and \<open>new\<close>.\<close>

definition str_replace :: "nat \<Rightarrow> nat \<Rightarrow> pystr \<Rightarrow> pystr" where
  "str_replace old new s = map (\<lambda>c. if c = old then new else c) s"

abbreviation backslash :: nat where "backslash \<equiv> 92"
abbreviation slash :: nat where "slash \<equiv> 47"

section \<open>The decoder\<close>

text \<open>
  \<open>convert_bytes(n_bytes, type, stream)\<close>. The buffer is allocated and filled before
  \<open>type\<close> is looked at. The stream comes back with its cursor moved.
\<close>

definition convert_bytes :: "int \<Rightarrow> pystr \<Rightarrow> stream \<Rightarrow> py_exception + (py_value \<times> stream)" where
  "convert_bytes n_bytes type s =
     (case bytearray n_bytes of
        Inl e \<Rightarrow> Inl e
      | Inr zeros \<Rightarrow>
          (let (byte_array, s') = readinto zeros s in
           if type = py ''str'' then
             (case utf8_decode byte_array of
                None \<Rightarrow> Inl UnicodeDecodeError
              | Some v \<Rightarrow> Inr (PyStr v, s'))
           else if type = py ''int'' then Inr (PyInt (int_from_bytes_little byte_array), s')
           else Inl (ValueError ''Type not supported.'')))"

text \<open>
  The callers use the result of \<open>convert_bytes(_, "int", _)\<close> as an integer and that of
  \<open>convert_bytes(_, "str", _)\<close> as a string. The other alternative of the union cannot
  come back; the model gives it \<open>TypeError\<close>.
\<close>

definition convert_int :: "int \<Rightarrow> stream \<Rightarrow> py_exception + (int \<times> stream)" where
  "convert_int n s =
     (case convert_bytes n (py ''int'') s of
        Inl e \<Rightarrow> Inl e
      | Inr (PyInt i, s') \<Rightarrow> Inr (i, s')
      | Inr (PyStr _, _) \<Rightarrow> Inl TypeError)"

definition convert_str :: "int \<Rightarrow> stream \<Rightarrow> py_exception + (pystr \<times> stream)" where
  "convert_str n s =
     (case convert_bytes n (py ''str'') s of
        Inl e \<Rightarrow> Inl e
      | Inr (PyStr v, s') \<Rightarrow> Inr (v, s')
      | Inr (PyInt _, _) \<Rightarrow> Inl TypeError)"

definition parse_manifest_entry :: "stream \<Rightarrow> py_exception + (ManifestEntry \<times> stream)" where
  "parse_manifest_entry s0 =
     (case convert_int 4 s0 of Inl e \<Rightarrow> Inl e | Inr (len, s1) \<Rightarrow>
     (case convert_int 4 s1 of Inl e \<Rightarrow> Inl e | Inr (len2, s2) \<Rightarrow>
     (case convert_int 4 s2 of Inl e \<Rightarrow> Inl e | Inr (offset, s3) \<Rightarrow>
     (case convert_int 4 s3 of Inl e \<Rightarrow> Inl e | Inr (name_length, s4) \<Rightarrow>
     (case convert_str name_length s4 of Inl e \<Rightarrow> Inl e | Inr (name, s5) \<Rightarrow>
        Inr (\<lparr>length_field = len, underscore_length = len2, file_offset = offset,
              file_name_length = name_length,
              file_name = str_replace backslash slash name\<rparr>, s5))))))"

section \<open>Little-endian decoding\<close>

text \<open>The reference decoder of an unsigned 32-bit little-endian field, on machine words.\<close>

definition reference_le_u32 :: "byte \<Rightarrow> byte \<Rightarrow> byte \<Rightarrow> byte \<Rightarrow> 32 word" where
  "reference_le_u32 b0 b1 b2 b3 =
     or (ucast b0) (or (push_bit 8 (ucast b1)) (or (push_bit 16 (ucast b2)) (push_bit 24 (ucast b3))))"

section \<open>Lookup by name\<close>

text \<open>The \<open>for\<close> loop of \<open>get_manifest_entry_by_name\<close> with its \<open>return\<close>, and the
  \<open>raise\<close> after it.\<close>

fun scan_entries :: "ManifestEntry list \<Rightarrow> pystr \<Rightarrow> py_exception + ManifestEntry" where
  "scan_entries [] name = Inl (ValueError ''File name not found in Manifest.'')"
| "scan_entries (entry # rest) name =
     (if file_name entry = name then Inr entry else scan_entries rest name)"

definition get_manifest_entry_by_name :: "Manifest \<Rightarrow> pystr \<Rightarrow> py_exception + ManifestEntry" where
  "get_manifest_entry_by_name manifest name = scan_entries (manifest_entries manifest) name"

section \<open>Reading a range\<close>

text \<open>\<open>get_bytes(offset, length, stream)\<close>: the buffer is allocated first, then the seek,
  then the read.\<close>

definition get_bytes :: "int \<Rightarrow> int \<Rightarrow> stream \<Rightarrow> py_exception + (byte list \<times> stream)" where
  "get_bytes offset len s =
     (case bytearray len of
        Inl e \<Rightarrow> Inl e
      | Inr zeros \<Rightarrow>
          (case seek_set offset s of
             Inl e \<Rightarrow> Inl e
           | Inr s1 \<Rightarrow> Inr (readinto zeros s1)))"

section \<open>The file system\<close>

text \<open>
  POSIX \<open>os.path.join\<close> of two parts and \<open>os.path.dirname\<close>, as \<open>posixpath\<close> defines them.
\<close>

definition starts_with_slash :: "pystr \<Rightarrow> bool" where
  "starts_with_slash p = (case p of [] \<Rightarrow> False | c # _ \<Rightarrow> c = slash)"

definition ends_with_slash :: "pystr \<Rightarrow> bool" where
  "ends_with_slash p = (case rev p of [] \<Rightarrow> False | c # _ \<Rightarrow> c = slash)"

definition path_join :: "pystr \<Rightarrow> pystr \<Rightarrow> pystr" where
  "path_join a b =
     (if starts_with_slash b \<or> a = [] then b
      else if ends_with_slash a then a @ b
      else a @ [slash] @ b)"

definition dirname :: "pystr \<Rightarrow> pystr" where
  "dirname p =
     (let head = rev (dropWhile (\<lambda>c. c \<noteq> slash) (rev p))
      in if head \<noteq> [] \<and> list_ex (\<lambda>c. c \<noteq> slash) head
         then rev (dropWhile (\<lambda>c. c = slash) (rev head))
         else head)"

text \<open>
  What the operating system answers is a parameter of the model: for each path, whether
  creating the directory fails with an \<open>OSError\<close> (and its message), and how opening the
  path with \<open>"wb"\<close> and writing to it ends: all bytes written, \<open>open\<close> refused, or the
  write failing after some bytes reached the file.
\<close>

datatype io_outcome = Written | OpenFails string | WriteFails string nat

record os_env =
  makedirs_oserror :: "pystr \<Rightarrow> string option"
  open_wb_outcome :: "pystr \<Rightarrow> io_outcome"

text \<open>The files of the disk by path, and the lines printed so far.\<close>

record world =
  files :: "pystr \<rightharpoonup> byte list"
  stdout :: "pystr list"

text \<open>
  \<open>os.makedirs(name, exist_ok=True)\<close>: a path with a NUL character is refused by Python
  with \<open>ValueError\<close>, the empty path by the system (\<open>FileNotFoundError\<close>, an \<open>OSError\<close>);
  otherwise the system decides. \<open>None\<close> is the normal return.
\<close>

definition makedirs :: "os_env \<Rightarrow> pystr \<Rightarrow> py_exception option" where
  "makedirs env name =
     (if 0 \<in> set name then Some (ValueError ''embedded null byte'')
      else if name = [] then Some (OSError ''No such file or directory'')
      else map_option OSError (makedirs_oserror env name))"

text \<open>
  \<open>with open(file_path, "wb") as output_file: output_file.write(byte_array)\<close>: the
  exception raised, if any, and the files afterwards. A path with a NUL character is
  refused by Python with \<open>ValueError\<close>. The empty path and a path that ends in a slash
  name no file that can be opened for writing: every system refuses them with an
  \<open>OSError\<close> (\<open>FileNotFoundError\<close>, \<open>IsADirectoryError\<close>). For the other paths the system
  decides.
\<close>

definition open_wb_write ::
  "os_env \<Rightarrow> pystr \<Rightarrow> byte list \<Rightarrow> (pystr \<rightharpoonup> byte list) \<Rightarrow> py_exception option \<times> (pystr \<rightharpoonup> byte list)" where
  "open_wb_write env file_path byte_array fs =
     (if 0 \<in> set file_path then (Some (ValueError ''embedded null byte''), fs)
      else if file_path = [] then (Some (OSError ''No such file or directory''), fs)
      else if ends_with_slash file_path then (Some (OSError ''Is a directory''), fs)
      else (case open_wb_outcome env file_path of
              Written \<Rightarrow> (None, fs(file_path \<mapsto> byte_array))
            | OpenFails msg \<Rightarrow> (Some (OSError msg), fs)
            | WriteFails msg k \<Rightarrow> (Some (OSError msg), fs(file_path \<mapsto> take k byte_array))))"

text \<open>\<open>open(path, "rb")\<close> on the files of the disk.\<close>

definition open_rb :: "(pystr \<rightharpoonup> byte list) \<Rightarrow> pystr \<Rightarrow> py_exception + stream" where
  "open_rb fs path =
     (if 0 \<in> set path then Inl (ValueError ''embedded null byte'')
      else (case fs path of
              None \<Rightarrow> Inl (OSError ''No such file or directory'')
            | Some d \<Rightarrow> Inr \<lparr>data = d, pos = 0\<rparr>))"

text \<open>\<open>except IOError\<close>: \<open>IOError\<close> is \<open>OSError\<close>.\<close>

fun is_IOError :: "py_exception \<Rightarrow> bool" where
  "is_IOError (OSError _) = True"
| "is_IOError _ = False"

fun str_of_exception :: "py_exception \<Rightarrow> pystr" where
  "str_of_exception (OSError msg) = py msg"
| "str_of_exception (ValueError msg) = py msg"
| "str_of_exception _ = []"

section \<open>The extractor\<close>

text \<open>
  \<open>extract_manifest_entry(entry, output_path, stream)\<close> returns nothing: the result is the
  exception that escapes, if any, with the stream and the world as they are then. Only the
  \<open>with open\<close> statement stands inside the \<open>try\<close>.
\<close>

definition extract_manifest_entry ::
  "os_env \<Rightarrow> ManifestEntry \<Rightarrow> pystr \<Rightarrow> stream \<Rightarrow> world \<Rightarrow> py_exception option \<times> stream \<times> world" where
  "extract_manifest_entry env entry output_path s w =
     (case get_bytes (file_offset entry) (length_field entry) s of
        Inl e \<Rightarrow> (Some e, s, w)
      | Inr (byte_array, s') \<Rightarrow>
          (let file_path = path_join output_path (file_name entry) in
           (case makedirs env (dirname file_path) of
              Some e \<Rightarrow> (Some e, s', w)
            | None \<Rightarrow>
                (case open_wb_write env file_path byte_array (files w) of
                   (None, fs') \<Rightarrow> (None, s', w\<lparr>files := fs'\<rparr>)
                 | (Some error, fs') \<Rightarrow>
                     if is_IOError error
                     then (None, s',
                           w\<lparr>files := fs',
                             stdout := stdout w @
                               [py ''Error writing to file: '' @ file_path,
                                py ''Error: '' @ str_of_exception error]\<rparr>)
                     else (Some error, s', w\<lparr>files := fs'\<rparr>)))))"

text \<open>The \<open>for\<close> loop of \<open>extract_manifest_files\<close>: an exception that escapes one entry
  ends it.\<close>

fun extract_loop ::
  "os_env \<Rightarrow> ManifestEntry list \<Rightarrow> pystr \<Rightarrow> stream \<Rightarrow> world \<Rightarrow> py_exception option \<times> world" where
  "extract_loop env [] output_path s w = (None, w)"
| "extract_loop env (entry # rest) output_path s w =
     (case extract_manifest_entry env entry output_path s w of
        (Some e, s', w') \<Rightarrow> (Some e, w')
      | (None, s', w') \<Rightarrow> extract_loop env rest output_path s' w')"

definition extract_manifest_files ::
  "os_env \<Rightarrow> Manifest \<Rightarrow> pystr \<Rightarrow> pystr \<Rightarrow> world \<Rightarrow> py_exception option \<times> world" where
  "extract_manifest_files env manifest output_path far_file_path w =
     (case open_rb (files w) far_file_path of
        Inl e \<Rightarrow> (Some e, w)
      | Inr s \<Rightarrow> extract_loop env (manifest_entries manifest) output_path s w)"

section \<open>Parsing the whole archive\<close>

text \<open>The loop \<open>for _ in range(number_of_files)\<close> with its \<open>append\<close>.\<close>

fun parse_loop ::
  "nat \<Rightarrow> stream \<Rightarrow> ManifestEntry list \<Rightarrow> py_exception + (ManifestEntry list \<times> stream)" where
  "parse_loop 0 s manifest_files = Inr (manifest_files, s)"
| "parse_loop (Suc n) s manifest_files =
     (case parse_manifest_entry s of
        Inl e \<Rightarrow> Inl e
      | Inr (manifest_entry, s') \<Rightarrow> parse_loop n s' (manifest_files @ [manifest_entry]))"

definition create_manifest :: "(pystr \<rightharpoonup> byte list) \<Rightarrow> pystr \<Rightarrow> py_exception + Manifest" where
  "create_manifest fs far_file_path =
     (case open_rb fs far_file_path of Inl e \<Rightarrow> Inl e | Inr s0 \<Rightarrow>
     (case convert_str 8 s0 of Inl e \<Rightarrow> Inl e | Inr (signature, s1) \<Rightarrow>
     (case convert_int 4 s1 of Inl e \<Rightarrow> Inl e | Inr (version, s2) \<Rightarrow>
     (case convert_int 4 s2 of Inl e \<Rightarrow> Inl e | Inr (manifest_offset, s3) \<Rightarrow>
     (case seek_set manifest_offset s3 of Inl e \<Rightarrow> Inl e | Inr s4 \<Rightarrow>
     (case convert_int 4 s4 of Inl e \<Rightarrow> Inl e | Inr (n_files, s5) \<Rightarrow>
     (case parse_loop (nat n_files) s5 [] of Inl e \<Rightarrow> Inl e | Inr (manifest_files, s6) \<Rightarrow>
        Inr \<lparr>number_of_files = n_files, manifest_entries = manifest_files\<rparr>)))))))"

section \<open>Notions used to state the properties\<close>

text \<open>The bytes of a range of the archive.\<close>

definition byte_slice :: "byte list \<Rightarrow> nat \<Rightarrow> nat \<Rightarrow> byte list" where
  "byte_slice d offset len = take len (drop offset d)"

text \<open>The stream as it stands after \<open>k\<close> entries have been parsed from it in succession,
  when all of them parse.\<close>

fun stream_after :: "nat \<Rightarrow> stream \<Rightarrow> stream option" where
  "stream_after 0 s = Some s"
| "stream_after (Suc k) s =
     (case parse_manifest_entry s of
        Inl e \<Rightarrow> None
      | Inr (entry, s') \<Rightarrow> stream_after k s')"

text \<open>The \<open>n\<close> bytes that a read at \<open>offset\<close> leaves in a fresh buffer: those the
  data has, then zeros.\<close>

definition padded :: "byte list \<Rightarrow> nat \<Rightarrow> nat \<Rightarrow> byte list" where
  "padded d offset n = byte_slice d offset n @ replicate (n - length (byte_slice d offset n)) 0"

text \<open>
  The layout of an archive \<open>d\<close>: the offset of the manifest table is the little-endian
  field in bytes 12 to 15; the entry count is the little-endian field at that offset; the
  entries start right behind the count.
\<close>

definition table_offset :: "byte list \<Rightarrow> nat" where
  "table_offset d = nat (int_from_bytes_little (byte_slice d 12 4))"

definition declared_count :: "byte list \<Rightarrow> int" where
  "declared_count d = int_from_bytes_little (byte_slice d (table_offset d) 4)"

definition table_stream :: "byte list \<Rightarrow> stream" where
  "table_stream d =
     \<lparr>data = d, pos = table_offset d + length (byte_slice d (table_offset d) 4)\<rparr>"

text \<open>The entry that a stream with no bytes left yields.\<close>

definition zero_entry :: ManifestEntry where
  "zero_entry = \<lparr>length_field = 0, underscore_length = 0, file_offset = 0,
                  file_name_length = 0, file_name = []\<rparr>"

text \<open>
  Whether a path lies under a root, read off the text of the two paths. Both are
  normalised the way \<open>posixpath.normpath\<close> does: empty and \<open>.\<close> components are dropped and
  \<open>..\<close> is resolved against the component before it (at the start of a relative path it
  stays). The path lies under the root when both are absolute or both relative, the
  components of the path begin with those of the root, and none of the components that
  follow is \<open>..\<close> (so that, for a root that normalises to nothing or to a run of \<open>..\<close>, a
  path that climbs further is not under it).
\<close>

fun split_slash :: "pystr \<Rightarrow> pystr list" where
  "split_slash [] = [[]]"
| "split_slash (c # cs) =
     (if c = slash then [] # split_slash cs
      else (case split_slash cs of
              [] \<Rightarrow> [[c]]
            | x # xs \<Rightarrow> (c # x) # xs))"

definition norm_step :: "bool \<Rightarrow> pystr list \<Rightarrow> pystr \<Rightarrow> pystr list" where
  "norm_step initial_slashes new_comps part =
     (if part = [] \<or> part = py ''.'' then new_comps
      else if part \<noteq> py ''..'' \<or> (\<not> initial_slashes \<and> new_comps = [])
              \<or> (new_comps \<noteq> [] \<and> last new_comps = py ''..'')
      then new_comps @ [part]
      else butlast new_comps)"

definition normpath_comps :: "pystr \<Rightarrow> pystr list" where
  "normpath_comps p = foldl (norm_step (starts_with_slash p)) [] (split_slash p)"

definition lies_under :: "pystr \<Rightarrow> pystr \<Rightarrow> bool" where
  "lies_under root p =
     (starts_with_slash root = starts_with_slash p
      \<and> take (length (normpath_comps root)) (normpath_comps p) = normpath_comps root
      \<and> py ''..'' \<notin> set (drop (length (normpath_comps root)) (normpath_comps p)))"

text \<open>
  The manifest table as the layout of the format gives it, read off the bytes of the
  archive \<open>d\<close> without any stream. \<open>u32_at d p\<close> is the unsigned 32-bit little-endian
  field in the four bytes at \<open>p\<close>. An entry at \<open>p\<close> is four such fields (\<open>length\<close>, the
  second length, \<open>file_offset\<close>, \<open>file_name_length\<close>) and then \<open>file_name_length\<close> bytes of
  UTF-8, in which every backslash stands for a slash; the next entry begins right behind
  the name. \<open>layout_entries d p n\<close> are the \<open>n\<close> entries from \<open>p\<close> on, in their order, when
  all of them lie within the archive and their names are UTF-8.
\<close>

definition u32_at :: "byte list \<Rightarrow> nat \<Rightarrow> int" where
  "u32_at d p = uint (reference_le_u32 (d ! p) (d ! (p + 1)) (d ! (p + 2)) (d ! (p + 3)))"

fun layout_entries :: "byte list \<Rightarrow> nat \<Rightarrow> nat \<Rightarrow> ManifestEntry list option" where
  "layout_entries d p 0 = Some []"
| "layout_entries d p (Suc n) =
     (if length d < p + 16 then None
      else if length d < p + 16 + nat (u32_at d (p + 12)) then None
      else (case utf8_decode (byte_slice d (p + 16) (nat (u32_at d (p + 12)))) of
              None \<Rightarrow> None
            | Some name \<Rightarrow>
                map_option
                  (\<lambda>rest. \<lparr>length_field = u32_at d p,
                            underscore_length = u32_at d (p + 4),
                            file_offset = u32_at d (p + 8),
                            file_name_length = u32_at d (p + 12),
                            file_name = str_replace backslash slash name\<rparr> # rest)
                  (layout_entries d (p + 16 + nat (u32_at d (p + 12))) n)))"

section \<open>Example archives\<close>

text \<open>
  The archive of the concrete scenario of the specification: signature \<open>"SIMSFAR "\<close>,
  version 1, manifest table at offset 20 with two entries, \<open>a.txt\<close> (5 bytes at offset 0)
  and \<open>b.txt\<close> in \<open>dir\<close>, stored with a backslash between them (3 bytes at offset 5).
\<close>

definition scenario_archive :: "byte list" where
  "scenario_archive =
     [0x53, 0x49, 0x4D, 0x53, 0x46, 0x41, 0x52, 0x20,  1, 0, 0, 0,  20, 0, 0, 0,
      0, 0, 0, 0,
      2, 0, 0, 0,
      5, 0, 0, 0,  5, 0, 0, 0,  0, 0, 0, 0,  5, 0, 0, 0,
      0x61, 0x2E, 0x74, 0x78, 0x74,
      3, 0, 0, 0,  3, 0, 0, 0,  5, 0, 0, 0,  9, 0, 0, 0,
      0x64, 0x69, 0x72, 0x5C, 0x62, 0x2E, 0x74, 0x78, 0x74]"

definition scenario_manifest :: Manifest where
  "scenario_manifest =
     \<lparr>number_of_files = 2,
      manifest_entries =
        [\<lparr>length_field = 5, underscore_length = 5, file_offset = 0, file_name_length = 5,
          file_name = py ''a.txt''\<rparr>,
         \<lparr>length_field = 3, underscore_length = 3, file_offset = 5, file_name_length = 9,
          file_name = py ''dir/b.txt''\<rparr>]\<rparr>"

text \<open>
  An archive cut short: the table, at offset 16, declares two entries, and the file ends
  with the first one (3 bytes at offset 0, named \<open>a\<close>).
\<close>

definition cut_archive :: "byte list" where
  "cut_archive =
     [70, 65, 82, 33, 98, 121, 65, 90,  1, 0, 0, 0,  16, 0, 0, 0,
      2, 0, 0, 0,
      3, 0, 0, 0,  3, 0, 0, 0,  0, 0, 0, 0,  1, 0, 0, 0,  97]"

section \<open>Example systems, disks and manifests\<close>

text \<open>An operating system that refuses nothing.\<close>

definition willing_env :: os_env where
  "willing_env = \<lparr>makedirs_oserror = (\<lambda>_. None), open_wb_outcome = (\<lambda>_. Written)\<rparr>"

text \<open>A disk that holds nothing but the archive of the scenario, at \<open>a.far\<close>.\<close>

definition scenario_world :: world where
  "scenario_world = \<lparr>files = [py ''a.far'' \<mapsto> scenario_archive], stdout = []\<rparr>"

text \<open>
  A manifest of two entries over the archive of the scenario: the name of the first has
  a NUL character (as the names of an archive cut short have, and as any archive may
  store), the second is \<open>b.txt\<close>, 3 bytes at offset 5.
\<close>

definition nul_name_manifest :: Manifest where
  "nul_name_manifest =
     \<lparr>number_of_files = 2,
      manifest_entries =
        [\<lparr>length_field = 2, underscore_length = 2, file_offset = 0, file_name_length = 2,
          file_name = [97, 0]\<rparr>,
         \<lparr>length_field = 3, underscore_length = 3, file_offset = 5, file_name_length = 5,
          file_name = py ''b.txt''\<rparr>]\<rparr>"

text \<open>The same manifest without its first entry.\<close>

definition b_only_manifest :: Manifest where
  "b_only_manifest =
     \<lparr>number_of_files = 1,
      manifest_entries =
        [\<lparr>length_field = 3, underscore_length = 3, file_offset = 5, file_name_length = 5,
          file_name = py ''b.txt''\<rparr>]\<rparr>"

text \<open>A system on which the directory \<open>out/dir\<close> cannot be created, and one on which
  \<open>out/dir/b.txt\<close> cannot be opened for writing.\<close>

definition no_mkdir_env :: os_env where
  "no_mkdir_env =
     \<lparr>makedirs_oserror = (\<lambda>p. if p = py ''out/dir'' then Some ''Permission denied'' else None),
      open_wb_outcome = (\<lambda>_. Written)\<rparr>"

definition no_open_env :: os_env where
  "no_open_env =
     \<lparr>makedirs_oserror = (\<lambda>_. None),
      open_wb_outcome = (\<lambda>p. if p = py ''out/dir/b.txt'' then OpenFails ''Permission denied''
                              else Written)\<rparr>"

text \<open>The manifest of the scenario with its two entries in the other order.\<close>

definition reversed_manifest :: Manifest where
  "reversed_manifest =
     \<lparr>number_of_files = 2, manifest_entries = rev (manifest_entries scenario_manifest)\<rparr>"

section \<open>Facts about the library calls\<close>

lemma py_int_neq_str: "py ''int'' \<noteq> py ''str''"
  by (simp add: py_def)

lemma bytearray_nonneg: "0 \<le> n \<Longrightarrow> bytearray n = Inr (replicate (nat n) 0)"
  by (simp add: bytearray_def)

lemma readinto_zeros:
  "readinto (replicate n 0) s =
     (byte_slice (data s) (pos s) n @ replicate (n - length (byte_slice (data s) (pos s) n)) 0,
      s\<lparr>pos := pos s + length (byte_slice (data s) (pos s) n)\<rparr>)"
  by (simp add: readinto_def byte_slice_def Let_def)

lemma length_slice: "length (byte_slice d offset n) = min n (length d - offset)"
  by (simp add: byte_slice_def)

lemma readinto_exact:
  assumes "pos s + n \<le> length (data s)"
  shows "readinto (replicate n 0) s = (byte_slice (data s) (pos s) n, s\<lparr>pos := pos s + n\<rparr>)"
proof -
  from assms have "length (byte_slice (data s) (pos s) n) = n"
    by (simp add: length_slice)
  then show ?thesis
    by (simp add: readinto_zeros)
qed

subsection \<open>Little-endian values\<close>

lemma or_push_bit_8:
  fixes x y :: int
  assumes "0 \<le> x" "x < 256"
  shows "or x (push_bit 8 y) = x + 256 * y"
  using assms concat_bit_eq [of 8 x y]
  by (simp add: concat_bit_def take_bit_int_eq_self push_bit_eq_mult)

lemma uint_byte_bounds:
  fixes b :: byte
  shows "0 \<le> uint b" and "uint b < 256"
  using uint_lt2p [of b] by simp_all

lemma uint_shifted_byte:
  fixes b :: byte
  assumes "n \<le> 24"
  shows "uint (push_bit n (ucast b :: 32 word)) = push_bit n (uint b)"
proof -
  have "uint b < 2 ^ 8"
    using uint_byte_bounds(2) [of b] by simp
  then have "uint b * 2 ^ n < 2 ^ 8 * 2 ^ n"
    by simp
  also have "\<dots> = 2 ^ (8 + n)"
    by (simp add: power_add)
  also have "\<dots> \<le> (2::int) ^ 32"
    using assms by (intro power_increasing) simp_all
  finally have shifted: "push_bit n (uint b) < 2 ^ 32"
    by (simp add: push_bit_eq_mult)
  have "uint b < 2 ^ 32"
    using uint_byte_bounds(2) [of b] by simp
  then have widened: "uint (ucast b :: 32 word) = uint b"
    by (simp add: unsigned_ucast_eq take_bit_int_eq_self)
  have "0 \<le> push_bit n (uint b)"
    by simp
  with shifted widened show ?thesis
    by (simp add: unsigned_push_bit_eq take_bit_int_eq_self)
qed

lemma uint_reference_le_u32:
  "uint (reference_le_u32 b0 b1 b2 b3)
     = uint b0 + 256 * (uint b1 + 256 * (uint b2 + 256 * uint b3))"
proof -
  have low: "uint (ucast b0 :: 32 word) = uint b0"
    using uint_shifted_byte [of 0 b0] by simp
  have "uint (reference_le_u32 b0 b1 b2 b3) =
          or (uint b0) (or (push_bit 8 (uint b1))
             (or (push_bit 16 (uint b2)) (push_bit 24 (uint b3))))"
    by (simp add: reference_le_u32_def unsigned_or_eq uint_shifted_byte low)
  also have "\<dots> = or (uint b0) (push_bit 8 (or (uint b1)
                       (push_bit 8 (or (uint b2) (push_bit 8 (uint b3))))))"
    by simp
  also have "\<dots> = uint b0 + 256 * (uint b1 + 256 * (uint b2 + 256 * uint b3))"
    by (simp add: or_push_bit_8 uint_byte_bounds)
  finally show ?thesis .
qed

section \<open>C9: integers are decoded as unsigned 32-bit little-endian\<close>

text \<open>
  C9. For every four bytes \<open>b0 b1 b2 b3\<close> standing at the cursor of a stream (whatever
  comes before and after them), \<open>convert_bytes(4, "int", stream)\<close> returns the value that
  the reference unsigned 32-bit little-endian decoder gives for them, and leaves the
  cursor behind the four bytes.
\<close>

theorem convert_bytes_int_is_reference_le_u32:
  "convert_bytes 4 (py ''int'') \<lparr>data = pre @ [b0, b1, b2, b3] @ post, pos = length pre\<rparr>
     = Inr (PyInt (uint (reference_le_u32 b0 b1 b2 b3)),
            \<lparr>data = pre @ [b0, b1, b2, b3] @ post, pos = length pre + 4\<rparr>)"
proof -
  let ?s = "\<lparr>data = pre @ [b0, b1, b2, b3] @ post, pos = length pre\<rparr>"
  have "pos ?s + 4 \<le> length (data ?s)"
    by simp
  from readinto_exact [OF this]
  have "readinto (replicate 4 0) ?s = ([b0, b1, b2, b3], ?s\<lparr>pos := length pre + 4\<rparr>)"
    by (simp add: byte_slice_def)
  then show ?thesis
    by (simp add: convert_bytes_def bytearray_def py_int_neq_str uint_reference_le_u32)
qed

section \<open>C7: normalising the path separators\<close>

lemma str_replace_absent: "old \<notin> set s \<Longrightarrow> str_replace old new s = s"
  by (induction s) (simp_all add: str_replace_def)

lemma str_replace_removes: "old \<noteq> new \<Longrightarrow> old \<notin> set (str_replace old new s)"
  by (auto simp: str_replace_def)

lemma parse_manifest_entry_name:
  assumes "parse_manifest_entry s = Inr (entry, s')"
  shows "\<exists>raw. file_name entry = str_replace backslash slash raw"
  using assms
  by (auto simp: parse_manifest_entry_def split: sum.splits prod.splits)

text \<open>
  C7. Replacing every backslash of a name by a slash is idempotent, leaves a name that
  has no backslash as it is, and its result has no backslash; in particular the
  \<open>file_name\<close> of every entry that \<open>parse_manifest_entry\<close> returns has none.
\<close>

theorem normalization_idempotent_no_backslash:
  "str_replace backslash slash (str_replace backslash slash name)
     = str_replace backslash slash name
   \<and> (backslash \<notin> set name \<longrightarrow> str_replace backslash slash name = name)
   \<and> backslash \<notin> set (str_replace backslash slash name)
   \<and> (parse_manifest_entry s = Inr (entry, s') \<longrightarrow> backslash \<notin> set (file_name entry))"
proof -
  have removed: "backslash \<notin> set (str_replace backslash slash raw)" for raw
    by (rule str_replace_removes) simp
  have "parse_manifest_entry s = Inr (entry, s') \<longrightarrow> backslash \<notin> set (file_name entry)"
    using parse_manifest_entry_name [of s entry s'] removed by auto
  then show ?thesis
    using removed [of name] by (simp add: str_replace_absent)
qed

theorem normalization_idempotent_no_backslash_witness:
  "str_replace backslash slash (py ''dir/b.txt'') = py ''dir/b.txt''
   \<and> parse_manifest_entry \<lparr>data = [1, 0, 0, 0, 1, 0, 0, 0, 0, 0, 0, 0, 3, 0, 0, 0, 97, 92, 98], pos = 0\<rparr>
       = Inr (\<lparr>length_field = 1, underscore_length = 1, file_offset = 0, file_name_length = 3,
               file_name = py ''a/b''\<rparr>,
              \<lparr>data = [1, 0, 0, 0, 1, 0, 0, 0, 0, 0, 0, 0, 3, 0, 0, 0, 97, 92, 98], pos = 19\<rparr>)
   \<and> backslash \<notin> set (py ''a/b'')"
proof -
  have absent: "backslash \<notin> set (py ''dir/b.txt'')"
    by (simp add: py_def)
  have parsed:
    "parse_manifest_entry \<lparr>data = [1, 0, 0, 0, 1, 0, 0, 0, 0, 0, 0, 0, 3, 0, 0, 0, 97, 92, 98], pos = 0\<rparr>
       = Inr (\<lparr>length_field = 1, underscore_length = 1, file_offset = 0, file_name_length = 3,
               file_name = py ''a/b''\<rparr>,
              \<lparr>data = [1, 0, 0, 0, 1, 0, 0, 0, 0, 0, 0, 0, 3, 0, 0, 0, 97, 92, 98], pos = 19\<rparr>)"
    by code_simp
  from normalization_idempotent_no_backslash
         [of "py ''dir/b.txt''"
             "\<lparr>data = [1, 0, 0, 0, 1, 0, 0, 0, 0, 0, 0, 0, 3, 0, 0, 0, 97, 92, 98], pos = 0\<rparr>"
             "\<lparr>length_field = 1, underscore_length = 1, file_offset = 0, file_name_length = 3,
               file_name = py ''a/b''\<rparr>"
             "\<lparr>data = [1, 0, 0, 0, 1, 0, 0, 0, 0, 0, 0, 0, 3, 0, 0, 0, 97, 92, 98], pos = 19\<rparr>"]
       absent parsed
  show ?thesis
    by simp
qed

section \<open>Reading a range: C10 and C8\<close>

lemma get_bytes_nonneg:
  assumes "0 \<le> offset" "0 \<le> len"
  shows "get_bytes offset len s =
     Inr (byte_slice (data s) (nat offset) (nat len)
            @ replicate (nat len - length (byte_slice (data s) (nat offset) (nat len))) 0,
          s\<lparr>pos := nat offset + length (byte_slice (data s) (nat offset) (nat len))\<rparr>)"
  using assms by (simp add: get_bytes_def bytearray_def seek_set_def readinto_zeros)

lemma nth_slice:
  assumes "i < length (byte_slice d offset n)"
  shows "byte_slice d offset n ! i = d ! (offset + i)"
proof -
  from assms have "i < n" and "i < length d - offset"
    by (simp_all add: length_slice)
  then have "i < n" and "offset + i < length d" and "offset \<le> length d"
    by arith+
  then show ?thesis
    by (simp add: byte_slice_def)
qed

lemma nth_padded:
  assumes "i < n"
  shows "(byte_slice d offset n @ replicate (n - length (byte_slice d offset n)) 0) ! i
           = (if offset + i < length d then d ! (offset + i) else 0)"
proof (cases "offset + i < length d")
  case True
  with assms have "i < length (byte_slice d offset n)"
    by (simp add: length_slice)
  with True show ?thesis
    by (simp add: nth_append nth_slice)
next
  case False
  with assms have out: "length (byte_slice d offset n) \<le> i"
    by (simp add: length_slice)
  with assms have "i - length (byte_slice d offset n) < n - length (byte_slice d offset n)"
    by arith
  with out False show ?thesis
    by (simp add: nth_append)
qed

text \<open>
  C10. For every non-negative offset and length, whatever the size of the stream and
  wherever its cursor stands, \<open>get_bytes\<close> returns (it raises nothing) a buffer of
  exactly \<open>length\<close> bytes: byte \<open>i\<close> is the byte of the stream at \<open>offset + i\<close> where the
  stream has one, and zero beyond the end of the stream.
\<close>

theorem get_bytes_zero_padded:
  assumes "0 \<le> offset" "0 \<le> len"
  shows "\<exists>byte_array s'. get_bytes offset len s = Inr (byte_array, s')
           \<and> length byte_array = nat len
           \<and> (\<forall>i < nat len. byte_array ! i =
                 (if nat offset + i < length (data s) then data s ! (nat offset + i) else 0))"
proof -
  let ?got = "byte_slice (data s) (nat offset) (nat len)"
  let ?ba = "?got @ replicate (nat len - length ?got) 0"
  have "length ?ba = nat len"
    by (simp add: length_slice)
  moreover have "?ba ! i = (if nat offset + i < length (data s) then data s ! (nat offset + i) else 0)"
    if "i < nat len" for i
    using that by (rule nth_padded)
  ultimately show ?thesis
    using get_bytes_nonneg [OF assms, of s] by blast
qed

theorem get_bytes_zero_padded_witness:
  "(0::int) \<le> 2 \<and> (0::int) \<le> 5
   \<and> (\<exists>byte_array s'.
          get_bytes 2 5 \<lparr>data = [10, 20, 30, 40], pos = 1\<rparr> = Inr (byte_array, s')
        \<and> length byte_array = nat 5
        \<and> (\<forall>i < nat 5. byte_array ! i =
              (if nat 2 + i < length (data \<lparr>data = [10, 20, 30, 40], pos = 1\<rparr>)
               then data \<lparr>data = [10, 20, 30, 40], pos = 1\<rparr> ! (nat 2 + i) else 0)))"
proof -
  have offset_ok: "(0::int) \<le> 2" and length_ok: "(0::int) \<le> 5"
    by simp_all
  from get_bytes_zero_padded [OF offset_ok length_ok, of "\<lparr>data = [10, 20, 30, 40], pos = 1\<rparr>"]
       offset_ok length_ok
  show ?thesis
    by blast
qed

text \<open>
  C8, as stated, fails: on a stream of three bytes, asking for four bytes from offset 1
  raises nothing and returns the two bytes there followed by two zero bytes.
\<close>

theorem get_bytes_truncated_counterexample:
  "get_bytes 1 4 \<lparr>data = [7, 8, 9], pos = 0\<rparr>
     = Inr ([8, 9, 0, 0], \<lparr>data = [7, 8, 9], pos = 3\<rparr>)"
  by code_simp

text \<open>
  C8, amended. For every non-negative offset and length, \<open>get_bytes\<close> seeks to the offset
  from the start of the stream (the cursor it finds plays no part) and, when the stream
  holds at least \<open>offset + length\<close> bytes, returns exactly the \<open>length\<close> bytes found there,
  leaving the cursor behind them; when the stream holds fewer bytes it raises no error
  either.
\<close>

theorem get_bytes_exact_range:
  assumes "0 \<le> offset" "0 \<le> len"
  shows "(nat offset + nat len \<le> length (data s) \<longrightarrow>
            get_bytes offset len s
              = Inr (byte_slice (data s) (nat offset) (nat len), s\<lparr>pos := nat offset + nat len\<rparr>))
         \<and> (\<forall>e. get_bytes offset len s \<noteq> Inl e)"
proof -
  have "length (byte_slice (data s) (nat offset) (nat len)) = nat len"
    if "nat offset + nat len \<le> length (data s)"
    using that by (simp add: length_slice)
  then show ?thesis
    using get_bytes_nonneg [OF assms, of s] by simp
qed

theorem get_bytes_exact_range_witness:
  "(0::int) \<le> 1 \<and> (0::int) \<le> 2 \<and> nat 1 + nat 2 \<le> length [7, 8, 9, 10 :: byte]
   \<and> get_bytes 1 2 \<lparr>data = [7, 8, 9, 10], pos = 4\<rparr> = Inr ([8, 9], \<lparr>data = [7, 8, 9, 10], pos = 3\<rparr>)"
  using get_bytes_exact_range [of 1 2 "\<lparr>data = [7, 8, 9, 10], pos = 4\<rparr>"]
  by (simp add: byte_slice_def)

section \<open>C6: lookup by name\<close>

lemma scan_entries_Inr:
  "scan_entries es name = Inr e \<longleftrightarrow>
     (\<exists>i < length es. es ! i = e \<and> file_name e = name \<and> (\<forall>j < i. file_name (es ! j) \<noteq> name))"
proof (induction es)
  case Nil
  then show ?case by simp
next
  case (Cons x xs)
  show ?case
  proof (cases "file_name x = name")
    case True
    have "(\<exists>i < length (x # xs). (x # xs) ! i = e \<and> file_name e = name
            \<and> (\<forall>j < i. file_name ((x # xs) ! j) \<noteq> name)) \<longleftrightarrow> x = e"
    proof
      assume "\<exists>i < length (x # xs). (x # xs) ! i = e \<and> file_name e = name
            \<and> (\<forall>j < i. file_name ((x # xs) ! j) \<noteq> name)"
      then obtain i where i: "(x # xs) ! i = e" "\<forall>j < i. file_name ((x # xs) ! j) \<noteq> name"
        by blast
      have "i = 0"
      proof (rule ccontr)
        assume "i \<noteq> 0"
        then have "0 < i" by simp
        with i(2) have "file_name ((x # xs) ! 0) \<noteq> name" by blast
        with True show False by simp
      qed
      with i(1) show "x = e" by simp
    next
      assume "x = e"
      with True have "(x # xs) ! 0 = e \<and> file_name e = name \<and> (\<forall>j < 0. file_name ((x # xs) ! j) \<noteq> name)"
        by simp
      then show "\<exists>i < length (x # xs). (x # xs) ! i = e \<and> file_name e = name
            \<and> (\<forall>j < i. file_name ((x # xs) ! j) \<noteq> name)"
        by (intro exI [of _ 0]) simp
    qed
    with True show ?thesis by simp
  next
    case False
    have "(\<exists>i < length (x # xs). (x # xs) ! i = e \<and> file_name e = name
            \<and> (\<forall>j < i. file_name ((x # xs) ! j) \<noteq> name))
          \<longleftrightarrow> (\<exists>i < length xs. xs ! i = e \<and> file_name e = name
            \<and> (\<forall>j < i. file_name (xs ! j) \<noteq> name))" (is "?L \<longleftrightarrow> ?R")
    proof
      assume ?L
      then obtain i where i: "i < length (x # xs)" "(x # xs) ! i = e" "file_name e = name"
         "\<forall>j < i. file_name ((x # xs) ! j) \<noteq> name" by blast
      from i(2,3) False obtain k where k: "i = Suc k" by (cases i) auto
      have "\<forall>j < k. file_name (xs ! j) \<noteq> name"
      proof (intro allI impI)
        fix j assume "j < k"
        then have "Suc j < i" using k by simp
        with i(4) have "file_name ((x # xs) ! Suc j) \<noteq> name" by blast
        then show "file_name (xs ! j) \<noteq> name" by simp
      qed
      with i k show ?R by auto
    next
      assume ?R
      then obtain i where i: "i < length xs" "xs ! i = e" "file_name e = name"
         "\<forall>j < i. file_name (xs ! j) \<noteq> name" by blast
      have "\<forall>j < Suc i. file_name ((x # xs) ! j) \<noteq> name"
      proof (intro allI impI)
        fix j assume "j < Suc i"
        then show "file_name ((x # xs) ! j) \<noteq> name"
          using False i(4) by (cases j) auto
      qed
      with i show ?L by (intro exI [of _ "Suc i"]) simp
    qed
    with False Cons.IH show ?thesis by simp
  qed
qed

lemma scan_entries_Inl:
  "scan_entries es name = Inl err \<longleftrightarrow>
     (name \<notin> file_name ` set es \<and> err = ValueError ''File name not found in Manifest.'')"
  by (induction es) auto

text \<open>
  C6. \<open>get_manifest_entry_by_name\<close> returns an entry exactly when that entry stands at
  the first position, in the order of the manifest, whose \<open>file_name\<close> equals the name
  (equality of the strings, character by character), also when later entries have the
  same name; and it raises, with \<open>ValueError("File name not found in Manifest.")\<close>,
  exactly when no entry has the name.
\<close>

theorem get_manifest_entry_by_name_first_match:
  "(get_manifest_entry_by_name manifest name = Inr e \<longleftrightarrow>
      (\<exists>i < length (manifest_entries manifest).
          manifest_entries manifest ! i = e \<and> file_name e = name
          \<and> (\<forall>j < i. file_name (manifest_entries manifest ! j) \<noteq> name)))
   \<and> (get_manifest_entry_by_name manifest name = Inl err \<longleftrightarrow>
        (name \<notin> file_name ` set (manifest_entries manifest)
         \<and> err = ValueError ''File name not found in Manifest.''))"
  unfolding get_manifest_entry_by_name_def
  using scan_entries_Inr [of "manifest_entries manifest" name e]
        scan_entries_Inl [of "manifest_entries manifest" name err]
  by blast

theorem get_manifest_entry_by_name_first_match_witness:
  "get_manifest_entry_by_name
     \<lparr>number_of_files = 3, manifest_entries =
        [\<lparr>length_field = 1, underscore_length = 1, file_offset = 0, file_name_length = 1, file_name = py ''a''\<rparr>,
         \<lparr>length_field = 2, underscore_length = 2, file_offset = 1, file_name_length = 1, file_name = py ''b''\<rparr>,
         \<lparr>length_field = 3, underscore_length = 3, file_offset = 3, file_name_length = 1, file_name = py ''b''\<rparr>]\<rparr>
     (py ''b'')
     = Inr \<lparr>length_field = 2, underscore_length = 2, file_offset = 1, file_name_length = 1, file_name = py ''b''\<rparr>
   \<and> get_manifest_entry_by_name
     \<lparr>number_of_files = 3, manifest_entries =
        [\<lparr>length_field = 1, underscore_length = 1, file_offset = 0, file_name_length = 1, file_name = py ''a''\<rparr>,
         \<lparr>length_field = 2, underscore_length = 2, file_offset = 1, file_name_length = 1, file_name = py ''b''\<rparr>,
         \<lparr>length_field = 3, underscore_length = 3, file_offset = 3, file_name_length = 1, file_name = py ''b''\<rparr>]\<rparr>
     (py ''B'')
     = Inl (ValueError ''File name not found in Manifest.'')"
proof -
  let ?m = "\<lparr>number_of_files = 3, manifest_entries =
        [\<lparr>length_field = 1, underscore_length = 1, file_offset = 0, file_name_length = 1, file_name = py ''a''\<rparr>,
         \<lparr>length_field = 2, underscore_length = 2, file_offset = 1, file_name_length = 1, file_name = py ''b''\<rparr>,
         \<lparr>length_field = 3, underscore_length = 3, file_offset = 3, file_name_length = 1, file_name = py ''b''\<rparr>]\<rparr>"
  let ?b1 = "\<lparr>length_field = 2, underscore_length = 2, file_offset = 1, file_name_length = 1, file_name = py ''b''\<rparr>"
  have "manifest_entries ?m ! 1 = ?b1 \<and> file_name ?b1 = py ''b''
        \<and> (\<forall>j < 1. file_name (manifest_entries ?m ! j) \<noteq> py ''b'')"
    by (simp add: py_def)
  then have first: "\<exists>i < length (manifest_entries ?m).
          manifest_entries ?m ! i = ?b1 \<and> file_name ?b1 = py ''b''
          \<and> (\<forall>j < i. file_name (manifest_entries ?m ! j) \<noteq> py ''b'')"
    by (intro exI [of _ 1]) simp
  have absent: "py ''B'' \<notin> file_name ` set (manifest_entries ?m)"
    by (simp add: py_def)
  from get_manifest_entry_by_name_first_match [of ?m "py ''b''" ?b1] first
  have found: "get_manifest_entry_by_name ?m (py ''b'') = Inr ?b1"
    by blast
  from get_manifest_entry_by_name_first_match
         [of ?m "py ''B''" _ "ValueError ''File name not found in Manifest.''"] absent
  have "get_manifest_entry_by_name ?m (py ''B'') = Inl (ValueError ''File name not found in Manifest.'')"
    by blast
  with found show ?thesis
    by (intro conjI)
qed

section \<open>Facts about the decoder\<close>

lemma int_from_bytes_little_zeros: "int_from_bytes_little (replicate k 0) = 0"
  by (induction k) simp_all

lemma int_from_bytes_little_padded:
  "int_from_bytes_little (xs @ replicate k 0) = int_from_bytes_little xs"
  by (induction xs) (simp_all add: int_from_bytes_little_zeros)

lemma convert_bytes_int:
  assumes "0 \<le> n"
  shows "convert_bytes n (py ''int'') s =
     Inr (PyInt (int_from_bytes_little (byte_slice (data s) (pos s) (nat n))),
          s\<lparr>pos := pos s + length (byte_slice (data s) (pos s) (nat n))\<rparr>)"
  using assms
  by (simp add: convert_bytes_def bytearray_def readinto_zeros py_int_neq_str
        int_from_bytes_little_padded)

lemma convert_int_value:
  assumes "0 \<le> n"
  shows "convert_int n s =
     Inr (int_from_bytes_little (byte_slice (data s) (pos s) (nat n)),
          s\<lparr>pos := pos s + length (byte_slice (data s) (pos s) (nat n))\<rparr>)"
  by (simp add: convert_int_def convert_bytes_int [OF assms])

lemma convert_str_value:
  assumes "0 \<le> n"
  shows "convert_str n s =
     (case utf8_decode (padded (data s) (pos s) (nat n)) of
        None \<Rightarrow> Inl UnicodeDecodeError
      | Some v \<Rightarrow> Inr (v, s\<lparr>pos := pos s + length (byte_slice (data s) (pos s) (nat n))\<rparr>))"
  using assms
  by (simp add: convert_str_def convert_bytes_def bytearray_def readinto_zeros padded_def
        split: option.splits)

lemma parse_loop_entries:
  assumes "parse_loop n s acc = Inr (es, s')"
  shows "\<exists>new. es = acc @ new \<and> length new = n
           \<and> (\<forall>k < n. \<exists>sk sk'. stream_after k s = Some sk
                  \<and> parse_manifest_entry sk = Inr (new ! k, sk'))"
  using assms
proof (induction n arbitrary: s acc)
  case 0
  then show ?case by simp
next
  case (Suc n)
  from Suc.prems obtain e s1 where
    first: "parse_manifest_entry s = Inr (e, s1)" and
    rest: "parse_loop n s1 (acc @ [e]) = Inr (es, s')"
    by (auto split: sum.splits)
  from Suc.IH [OF rest] obtain new where
    new: "es = (acc @ [e]) @ new" "length new = n"
      "\<forall>k < n. \<exists>sk sk'. stream_after k s1 = Some sk \<and> parse_manifest_entry sk = Inr (new ! k, sk')"
    by blast
  have "\<exists>sk sk'. stream_after k s = Some sk \<and> parse_manifest_entry sk = Inr ((e # new) ! k, sk')"
    if "k < Suc n" for k
  proof (cases k)
    case 0
    with first show ?thesis by simp
  next
    case (Suc j)
    with that have "j < n" by simp
    with new(3) Suc first show ?thesis by simp
  qed
  with new(1,2) show ?case
    by (intro exI [of _ "e # new"]) simp
qed

lemma slice_min: "byte_slice d (min 12 (length d)) 4 = byte_slice d 12 4"
  by (cases "12 \<le> length d") (simp_all add: byte_slice_def min_def)

lemma header_cursor:
  "min 8 (length d) + min 4 (length d - min 8 (length d)) = min 12 (length d)"
  by arith

lemma int_from_bytes_little_nonneg: "0 \<le> int_from_bytes_little bs"
  by (induction bs) simp_all

lemma create_manifest_opened:
  assumes "open_rb fs path = Inr \<lparr>data = d, pos = 0\<rparr>"
  shows "create_manifest fs path =
     (case utf8_decode (padded d 0 8) of
        None \<Rightarrow> Inl UnicodeDecodeError
      | Some signature \<Rightarrow>
          (case parse_loop (nat (declared_count d)) (table_stream d) [] of
             Inl e \<Rightarrow> Inl e
           | Inr (es, s6) \<Rightarrow> Inr \<lparr>number_of_files = declared_count d, manifest_entries = es\<rparr>))"
proof (cases "utf8_decode (padded d 0 8)")
  case None
  then show ?thesis
    by (simp add: create_manifest_def assms convert_str_value)
next
  case (Some signature)
  let ?s1 = "\<lparr>data = d, pos = min 8 (length d)\<rparr>"
  let ?s2 = "\<lparr>data = d, pos = min 12 (length d)\<rparr>"
  have s1: "convert_str 8 \<lparr>data = d, pos = 0\<rparr> = Inr (signature, ?s1)"
    using Some by (simp add: convert_str_value length_slice)
  have s2: "\<exists>version. convert_int 4 ?s1 = Inr (version, ?s2)"
    using header_cursor [of d] by (simp add: convert_int_value length_slice)
  have s3: "\<exists>s3. convert_int 4 ?s2 = Inr (int (table_offset d), s3) \<and> data s3 = d"
    by (simp add: convert_int_value slice_min table_offset_def int_from_bytes_little_nonneg)
  have s4: "seek_set (int (table_offset d)) s3 = Inr \<lparr>data = d, pos = table_offset d\<rparr>" if "data s3 = d" for s3
    using that by (cases s3) (simp add: seek_set_def)
  have s5: "convert_int 4 \<lparr>data = d, pos = table_offset d\<rparr> = Inr (declared_count d, table_stream d)"
    by (simp add: convert_int_value declared_count_def table_stream_def)
  from s2 obtain version where v: "convert_int 4 ?s1 = Inr (version, ?s2)" by blast
  from s3 obtain s3 where o: "convert_int 4 ?s2 = Inr (int (table_offset d), s3)" "data s3 = d" by blast
  show ?thesis
    by (simp add: create_manifest_def assms s1 v o s4 [OF o(2)] s5 Some)
qed

section \<open>C5: the manifest is parsed in order\<close>

lemma slice_four:
  assumes "p + 4 \<le> length d"
  shows "byte_slice d p 4 = [d ! p, d ! (p + 1), d ! (p + 2), d ! (p + 3)]"
proof -
  have len: "length (byte_slice d p 4) = 4"
    using assms by (simp add: length_slice)
  have nth: "byte_slice d p 4 ! i = d ! (p + i)" if "i < 4" for i
    using that len by (simp add: nth_slice)
  show ?thesis
  proof (rule nth_equalityI)
    show "length (byte_slice d p 4) = length [d ! p, d ! (p + 1), d ! (p + 2), d ! (p + 3)]"
      using len by simp
  next
    fix i assume "i < length (byte_slice d p 4)"
    then have "i < 4" using len by simp
    then consider "i = 0" | "i = 1" | "i = 2" | "i = 3" by arith
    then show "byte_slice d p 4 ! i = [d ! p, d ! (p + 1), d ! (p + 2), d ! (p + 3)] ! i"
      by cases (simp_all add: nth)
  qed
qed

lemma little_endian_field:
  assumes "p + 4 \<le> length d"
  shows "int_from_bytes_little (byte_slice d p 4) = u32_at d p"
  by (simp add: slice_four [OF assms] u32_at_def uint_reference_le_u32)

lemma convert_int_field:
  assumes "p + 4 \<le> length d"
  shows "convert_int 4 \<lparr>data = d, pos = p\<rparr> = Inr (u32_at d p, \<lparr>data = d, pos = p + 4\<rparr>)"
  using assms by (simp add: convert_int_value little_endian_field length_slice)

lemma u32_at_nonneg: "0 \<le> u32_at d p"
  by (simp add: u32_at_def)

lemma convert_str_within:
  assumes "p + n \<le> length d"
  shows "convert_str (int n) \<lparr>data = d, pos = p\<rparr> =
     (case utf8_decode (byte_slice d p n) of
        None \<Rightarrow> Inl UnicodeDecodeError
      | Some v \<Rightarrow> Inr (v, \<lparr>data = d, pos = p + n\<rparr>))"
proof -
  from assms have "length (byte_slice d p n) = n"
    by (simp add: length_slice)
  then show ?thesis
    by (simp add: convert_str_value padded_def split: option.splits)
qed

lemma parse_manifest_entry_layout:
  assumes "p + 16 + nat (u32_at d (p + 12)) \<le> length d"
      and "utf8_decode (byte_slice d (p + 16) (nat (u32_at d (p + 12)))) = Some name"
  shows "parse_manifest_entry \<lparr>data = d, pos = p\<rparr> =
     Inr (\<lparr>length_field = u32_at d p, underscore_length = u32_at d (p + 4),
           file_offset = u32_at d (p + 8), file_name_length = u32_at d (p + 12),
           file_name = str_replace backslash slash name\<rparr>,
          \<lparr>data = d, pos = p + 16 + nat (u32_at d (p + 12))\<rparr>)"
proof -
  let ?n = "nat (u32_at d (p + 12))"
  from assms(1) have f: "p + 4 \<le> length d" "p + 4 + 4 \<le> length d" "p + 8 + 4 \<le> length d"
    "p + 12 + 4 \<le> length d" "p + 16 + ?n \<le> length d"
    by simp_all
  have name_len: "u32_at d (p + 12) = int ?n"
    by (simp add: u32_at_nonneg)
  have s1: "convert_int 4 \<lparr>data = d, pos = p\<rparr> = Inr (u32_at d p, \<lparr>data = d, pos = p + 4\<rparr>)"
    by (rule convert_int_field [OF f(1)])
  have s2: "convert_int 4 \<lparr>data = d, pos = p + 4\<rparr> = Inr (u32_at d (p + 4), \<lparr>data = d, pos = p + 8\<rparr>)"
    using convert_int_field [OF f(2)] by simp
  have s3: "convert_int 4 \<lparr>data = d, pos = p + 8\<rparr> = Inr (u32_at d (p + 8), \<lparr>data = d, pos = p + 12\<rparr>)"
    using convert_int_field [OF f(3)] by simp
  have s4: "convert_int 4 \<lparr>data = d, pos = p + 12\<rparr> = Inr (u32_at d (p + 12), \<lparr>data = d, pos = p + 16\<rparr>)"
    using convert_int_field [OF f(4)] by simp
  have s5: "convert_str (u32_at d (p + 12)) \<lparr>data = d, pos = p + 16\<rparr>
              = Inr (name, \<lparr>data = d, pos = p + 16 + ?n\<rparr>)"
    using convert_str_within [OF f(5)] assms(2) name_len by simp
  show ?thesis
    by (simp add: parse_manifest_entry_def s1 s2 s3 s4 s5)
qed

lemma parse_loop_layout:
  assumes "layout_entries d p n = Some es"
  shows "length es = n \<and> (\<exists>p'. parse_loop n \<lparr>data = d, pos = p\<rparr> acc = Inr (acc @ es, \<lparr>data = d, pos = p'\<rparr>))"
  using assms
proof (induction n arbitrary: p acc es)
  case 0
  then show ?case by simp
next
  case (Suc n)
  let ?k = "nat (u32_at d (p + 12))"
  from Suc.prems obtain name rest where
    fits: "p + 16 + ?k \<le> length d" and
    name: "utf8_decode (byte_slice d (p + 16) ?k) = Some name" and
    rest: "layout_entries d (p + 16 + ?k) n = Some rest" and
    es: "es = \<lparr>length_field = u32_at d p, underscore_length = u32_at d (p + 4),
           file_offset = u32_at d (p + 8), file_name_length = u32_at d (p + 12),
           file_name = str_replace backslash slash name\<rparr> # rest"
    by (auto split: if_splits option.splits)
  let ?entry = "\<lparr>length_field = u32_at d p, underscore_length = u32_at d (p + 4),
           file_offset = u32_at d (p + 8), file_name_length = u32_at d (p + 12),
           file_name = str_replace backslash slash name\<rparr>"
  from Suc.IH [OF rest, of "acc @ [?entry]"] obtain p' where
    len: "length rest = n" and
    loop: "parse_loop n \<lparr>data = d, pos = p + 16 + ?k\<rparr> (acc @ [?entry])
             = Inr ((acc @ [?entry]) @ rest, \<lparr>data = d, pos = p'\<rparr>)"
    by blast
  have "parse_loop (Suc n) \<lparr>data = d, pos = p\<rparr> acc = Inr (acc @ es, \<lparr>data = d, pos = p'\<rparr>)"
    using parse_manifest_entry_layout [OF fits name] loop es by simp
  with len es show ?case
    by auto
qed

text \<open>
  C5. First part: for every archive of at least 16 bytes that can be opened, whose first
  eight bytes are UTF-8 (the signature), whose field at byte 12 (behind the 4-byte
  version) gives an offset at which four bytes of count lie within the archive, and whose
  table holds, right behind the count, that many entries laid out one after the other
  within the archive, \<open>create_manifest\<close> returns a manifest: its \<open>number_of_files\<close> is the
  count, its entries are exactly those of the table, in the order of the archive, and
  there are \<open>number_of_files\<close> of them. Second part: for every archive whatever (also one
  cut short), whenever \<open>create_manifest\<close> returns a manifest, \<open>number_of_files\<close> is the
  count read at the table offset, the list has exactly that many entries, and the \<open>k\<close>-th
  is what \<open>parse_manifest_entry\<close> reads where the \<open>k\<close> entries before it left the stream.
\<close>

theorem create_manifest_entries_in_order:
  "(fs path = Some d \<and> 0 \<notin> set path \<and> 16 \<le> length d \<and> utf8_decode (take 8 d) \<noteq> None
      \<and> nat (u32_at d 12) + 4 \<le> length d
      \<and> layout_entries d (nat (u32_at d 12) + 4) (nat (u32_at d (nat (u32_at d 12)))) = Some es
     \<longrightarrow> create_manifest fs path
           = Inr \<lparr>number_of_files = u32_at d (nat (u32_at d 12)), manifest_entries = es\<rparr>
         \<and> int (length es) = u32_at d (nat (u32_at d 12)))
   \<and> (create_manifest fs path = Inr m \<longrightarrow>
        (\<exists>d. fs path = Some d
           \<and> utf8_decode (padded d 0 8) \<noteq> None
           \<and> number_of_files m = declared_count d
           \<and> int (length (manifest_entries m)) = number_of_files m
           \<and> (\<forall>k < length (manifest_entries m). \<exists>sk sk'.
                  stream_after k (table_stream d) = Some sk
                \<and> parse_manifest_entry sk = Inr (manifest_entries m ! k, sk'))))"
proof (intro conjI impI)
  assume h: "fs path = Some d \<and> 0 \<notin> set path \<and> 16 \<le> length d \<and> utf8_decode (take 8 d) \<noteq> None
      \<and> nat (u32_at d 12) + 4 \<le> length d
      \<and> layout_entries d (nat (u32_at d 12) + 4) (nat (u32_at d (nat (u32_at d 12)))) = Some es"
  let ?off = "nat (u32_at d 12)"
  let ?n = "u32_at d ?off"
  from h have opened: "open_rb fs path = Inr \<lparr>data = d, pos = 0\<rparr>"
    by (simp add: open_rb_def)
  from h have off: "table_offset d = ?off"
    by (simp add: table_offset_def little_endian_field)
  with h have count: "declared_count d = ?n"
    by (simp add: declared_count_def little_endian_field)
  from h have "min 4 (length d - ?off) = 4"
    by arith
  with off have table: "table_stream d = \<lparr>data = d, pos = ?off + 4\<rparr>"
    by (simp add: table_stream_def length_slice)
  from h have sig: "padded d 0 8 = take 8 d"
    by (simp add: padded_def byte_slice_def)
  from h parse_loop_layout [of d "?off + 4" "nat ?n" es "[]"] obtain p' where
    len: "length es = nat ?n" and
    loop: "parse_loop (nat ?n) \<lparr>data = d, pos = ?off + 4\<rparr> [] = Inr (es, \<lparr>data = d, pos = p'\<rparr>)"
    by auto
  from h show "create_manifest fs path = Inr \<lparr>number_of_files = ?n, manifest_entries = es\<rparr>"
    by (auto simp: create_manifest_opened [OF opened] sig count table loop)
  from len show "int (length es) = ?n"
    by (simp add: u32_at_nonneg)
next
  assume ret: "create_manifest fs path = Inr m"
  from ret obtain d where d: "fs path = Some d"
    and opened: "open_rb fs path = Inr \<lparr>data = d, pos = 0\<rparr>"
    by (auto simp: create_manifest_def open_rb_def split: if_splits option.splits)
  from ret create_manifest_opened [OF opened] obtain es s6 where
    sig: "utf8_decode (padded d 0 8) \<noteq> None" and
    loop: "parse_loop (nat (declared_count d)) (table_stream d) [] = Inr (es, s6)" and
    m: "m = \<lparr>number_of_files = declared_count d, manifest_entries = es\<rparr>"
    by (auto split: option.splits sum.splits)
  from parse_loop_entries [OF loop] have
    len: "length es = nat (declared_count d)" and
    each: "\<forall>k < nat (declared_count d). \<exists>sk sk'. stream_after k (table_stream d) = Some sk
              \<and> parse_manifest_entry sk = Inr (es ! k, sk')"
    by auto
  have "0 \<le> declared_count d"
    by (simp add: declared_count_def int_from_bytes_little_nonneg)
  with len have "int (length es) = declared_count d"
    by simp
  with d sig m len each show "\<exists>d. fs path = Some d
           \<and> utf8_decode (padded d 0 8) \<noteq> None
           \<and> number_of_files m = declared_count d
           \<and> int (length (manifest_entries m)) = number_of_files m
           \<and> (\<forall>k < length (manifest_entries m). \<exists>sk sk'.
                  stream_after k (table_stream d) = Some sk
                \<and> parse_manifest_entry sk = Inr (manifest_entries m ! k, sk'))"
    by simp
qed

theorem create_manifest_entries_in_order_witness:
  "([py ''a.far'' \<mapsto> scenario_archive] (py ''a.far'') = Some scenario_archive
      \<and> 0 \<notin> set (py ''a.far'') \<and> 16 \<le> length scenario_archive
      \<and> utf8_decode (take 8 scenario_archive) \<noteq> None
      \<and> nat (u32_at scenario_archive 12) + 4 \<le> length scenario_archive
      \<and> layout_entries scenario_archive (nat (u32_at scenario_archive 12) + 4)
            (nat (u32_at scenario_archive (nat (u32_at scenario_archive 12))))
          = Some (manifest_entries scenario_manifest))
   \<and> create_manifest [py ''a.far'' \<mapsto> scenario_archive] (py ''a.far'') = Inr scenario_manifest
   \<and> int (length (manifest_entries scenario_manifest)) = 2
   \<and> (\<exists>d. [py ''a.far'' \<mapsto> scenario_archive] (py ''a.far'') = Some d
         \<and> utf8_decode (padded d 0 8) \<noteq> None
         \<and> number_of_files scenario_manifest = declared_count d
         \<and> int (length (manifest_entries scenario_manifest)) = number_of_files scenario_manifest
         \<and> (\<forall>k < length (manifest_entries scenario_manifest). \<exists>sk sk'.
                stream_after k (table_stream d) = Some sk
              \<and> parse_manifest_entry sk = Inr (manifest_entries scenario_manifest ! k, sk')))"
proof -
  have on_disk: "[py ''a.far'' \<mapsto> scenario_archive] (py ''a.far'') = Some scenario_archive"
    by simp
  have no_nul: "0 \<notin> set (py ''a.far'')"
    by (simp add: py_def)
  have header: "16 \<le> length scenario_archive"
    by (simp add: scenario_archive_def)
  have signature: "utf8_decode (take 8 scenario_archive) \<noteq> None"
    by code_simp
  have count_within: "nat (u32_at scenario_archive 12) + 4 \<le> length scenario_archive"
    by code_simp
  have table: "layout_entries scenario_archive (nat (u32_at scenario_archive 12) + 4)
            (nat (u32_at scenario_archive (nat (u32_at scenario_archive 12))))
          = Some (manifest_entries scenario_manifest)"
    by code_simp
  note well_formed = on_disk no_nul header signature count_within table
  note claim = create_manifest_entries_in_order
                 [of "[py ''a.far'' \<mapsto> scenario_archive]" "py ''a.far''" scenario_archive
                     "manifest_entries scenario_manifest" scenario_manifest]
  have count: "u32_at scenario_archive (nat (u32_at scenario_archive 12)) = 2"
    by code_simp
  from claim well_formed have
    "create_manifest [py ''a.far'' \<mapsto> scenario_archive] (py ''a.far'')
       = Inr \<lparr>number_of_files = u32_at scenario_archive (nat (u32_at scenario_archive 12)),
              manifest_entries = manifest_entries scenario_manifest\<rparr>"
    and "int (length (manifest_entries scenario_manifest))
       = u32_at scenario_archive (nat (u32_at scenario_archive 12))"
    by blast+
  with count have returned: "create_manifest [py ''a.far'' \<mapsto> scenario_archive] (py ''a.far'') = Inr scenario_manifest"
    and how_many: "int (length (manifest_entries scenario_manifest)) = 2"
    by (simp_all add: scenario_manifest_def)
  from claim returned have in_order: "\<exists>d. [py ''a.far'' \<mapsto> scenario_archive] (py ''a.far'') = Some d
         \<and> utf8_decode (padded d 0 8) \<noteq> None
         \<and> number_of_files scenario_manifest = declared_count d
         \<and> int (length (manifest_entries scenario_manifest)) = number_of_files scenario_manifest
         \<and> (\<forall>k < length (manifest_entries scenario_manifest). \<exists>sk sk'.
                stream_after k (table_stream d) = Some sk
              \<and> parse_manifest_entry sk = Inr (manifest_entries scenario_manifest ! k, sk'))"
    by blast
  from well_formed returned how_many in_order show ?thesis
    by (intro conjI)
qed

section \<open>C2: reads at the end of the data\<close>

lemma parse_manifest_entry_at_end:
  assumes "length (data s) \<le> pos s"
  shows "parse_manifest_entry s = Inr (zero_entry, s)"
proof -
  from assms have empty: "byte_slice (data s) (pos s) n = []" for n
    by (simp add: byte_slice_def)
  have same: "s\<lparr>pos := pos s\<rparr> = s"
    by simp
  show ?thesis
    by (simp add: parse_manifest_entry_def convert_int_value convert_str_value padded_def
          empty same zero_entry_def str_replace_def)
qed

lemma parse_loop_at_end:
  assumes "length (data s) \<le> pos s"
  shows "parse_loop n s acc = Inr (acc @ replicate n zero_entry, s)"
  using assms
proof (induction n arbitrary: acc)
  case 0
  then show ?case by simp
next
  case (Suc n)
  then show ?case
    by (simp add: parse_manifest_entry_at_end replicate_app_Cons_same)
qed

lemma parse_loop_after:
  assumes "stream_after k s = Some sk"
  shows "\<exists>new. length new = k \<and> parse_loop (k + j) s acc = parse_loop j sk (acc @ new)"
  using assms
proof (induction k arbitrary: s acc)
  case 0
  then show ?case by simp
next
  case (Suc k)
  from Suc.prems obtain e s1 where
    first: "parse_manifest_entry s = Inr (e, s1)" and rest: "stream_after k s1 = Some sk"
    by (auto split: sum.splits)
  from Suc.IH [OF rest, of "acc @ [e]"] obtain new where
    "length new = k" "parse_loop (k + j) s1 (acc @ [e]) = parse_loop j sk ((acc @ [e]) @ new)"
    by blast
  with first show ?case
    by (intro exI [of _ "e # new"]) simp
qed

lemma convert_int_data:
  assumes "convert_int 4 s = Inr (v, s')"
  shows "data s' = data s"
  using assms by (auto simp: convert_int_value)

lemma convert_str_data:
  assumes "convert_str n s = Inr (v, s')"
  shows "data s' = data s"
proof (cases "0 \<le> n")
  case True
  with assms show ?thesis
    by (auto simp: convert_str_value split: option.splits)
next
  case False
  with assms show ?thesis
    by (simp add: convert_str_def convert_bytes_def bytearray_def)
qed

lemma parse_manifest_entry_data:
  assumes "parse_manifest_entry s = Inr (e, s')"
  shows "data s' = data s"
proof -
  from assms obtain a s1 b s2 c s3 n s4 v where
    "convert_int 4 s = Inr (a, s1)" "convert_int 4 s1 = Inr (b, s2)"
    "convert_int 4 s2 = Inr (c, s3)" "convert_int 4 s3 = Inr (n, s4)"
    "convert_str n s4 = Inr (v, s')"
    by (auto simp: parse_manifest_entry_def split: sum.splits)
  then show ?thesis
    using convert_int_data convert_str_data by metis
qed

lemma stream_after_data:
  assumes "stream_after k s = Some sk"
  shows "data sk = data s"
  using assms
proof (induction k arbitrary: s)
  case 0
  then show ?case by simp
next
  case (Suc k)
  then show ?case
    by (auto split: sum.splits dest: parse_manifest_entry_data)
qed

lemma slice_past_end:
  assumes "length d < offset + n"
  shows "byte_slice d offset n = drop offset d"
    and "offset + length (byte_slice d offset n) = max offset (length d)"
  using assms by (simp_all add: byte_slice_def)

text \<open>
  C2, as stated, fails: with two bytes left, \<open>convert_bytes(4, "int", stream)\<close> returns
  513, and parsing the archive that declares two entries and ends with the first returns
  a manifest of two entries, the second all zero with an empty name.
\<close>

theorem truncated_archive_counterexample:
  "convert_bytes 4 (py ''int'') \<lparr>data = [1, 2], pos = 0\<rparr>
     = Inr (PyInt 513, \<lparr>data = [1, 2], pos = 2\<rparr>)
   \<and> create_manifest [py ''a.far'' \<mapsto> cut_archive] (py ''a.far'')
     = Inr \<lparr>number_of_files = 2,
            manifest_entries =
              [\<lparr>length_field = 3, underscore_length = 3, file_offset = 0, file_name_length = 1,
                file_name = py ''a''\<rparr>,
               \<lparr>length_field = 0, underscore_length = 0, file_offset = 0, file_name_length = 0,
                file_name = []\<rparr>]\<rparr>"
  by code_simp

text \<open>
  C2, amended. On a stream with fewer than \<open>n_bytes\<close> bytes left, \<open>convert_bytes\<close> does
  not fail for that: the bytes missing are zero. With \<open>"int"\<close> it returns the
  little-endian value of the bytes that are left; with \<open>"str"\<close> it decodes the bytes left
  followed by zero bytes (and fails only if these are not UTF-8). Consequently, when the
  archive opens, its signature decodes, and its data are used up after \<open>k\<close> entries of
  the table, \<open>k\<close> at most the declared count, \<open>create_manifest\<close> returns a manifest with
  the declared \<open>number_of_files\<close> and that many entries, those from index \<open>k\<close> on being
  the all-zero entry with the empty name.
\<close>

theorem truncated_reads_are_padded:
  "(0 \<le> n \<and> length (data s) < pos s + nat n \<longrightarrow>
      convert_bytes n (py ''int'') s
        = Inr (PyInt (int_from_bytes_little (drop (pos s) (data s))),
               s\<lparr>pos := max (pos s) (length (data s))\<rparr>)
    \<and> convert_bytes n (py ''str'') s
        = (case utf8_decode (padded (data s) (pos s) (nat n)) of
             None \<Rightarrow> Inl UnicodeDecodeError
           | Some v \<Rightarrow> Inr (PyStr v, s\<lparr>pos := max (pos s) (length (data s))\<rparr>)))
   \<and> (fs path = Some d \<and> 0 \<notin> set path \<and> utf8_decode (padded d 0 8) \<noteq> None
       \<and> stream_after k (table_stream d) = Some sk \<and> length d \<le> pos sk
       \<and> k \<le> nat (declared_count d) \<longrightarrow>
       (\<exists>m. create_manifest fs path = Inr m
           \<and> number_of_files m = declared_count d
           \<and> int (length (manifest_entries m)) = declared_count d
           \<and> (\<forall>i. k \<le> i \<and> i < nat (declared_count d) \<longrightarrow> manifest_entries m ! i = zero_entry)))"
proof (intro conjI impI)
  assume short: "0 \<le> n \<and> length (data s) < pos s + nat n"
  then show "convert_bytes n (py ''int'') s
        = Inr (PyInt (int_from_bytes_little (drop (pos s) (data s))),
               s\<lparr>pos := max (pos s) (length (data s))\<rparr>)"
    by (simp add: convert_bytes_int slice_past_end)
  from short show "convert_bytes n (py ''str'') s
        = (case utf8_decode (padded (data s) (pos s) (nat n)) of
             None \<Rightarrow> Inl UnicodeDecodeError
           | Some v \<Rightarrow> Inr (PyStr v, s\<lparr>pos := max (pos s) (length (data s))\<rparr>))"
    by (simp add: convert_bytes_def bytearray_def readinto_zeros padded_def slice_past_end
          split: option.splits)
next
  assume h: "fs path = Some d \<and> 0 \<notin> set path \<and> utf8_decode (padded d 0 8) \<noteq> None
       \<and> stream_after k (table_stream d) = Some sk \<and> length d \<le> pos sk
       \<and> k \<le> nat (declared_count d)"
  let ?n = "nat (declared_count d)"
  from h have opened: "open_rb fs path = Inr \<lparr>data = d, pos = 0\<rparr>"
    by (simp add: open_rb_def)
  from h have "data sk = d"
    using stream_after_data [of k "table_stream d" sk] by (simp add: table_stream_def)
  with h have at_end: "length (data sk) \<le> pos sk"
    by simp
  from h parse_loop_after [of k "table_stream d" sk "?n - k" "[]"] obtain new where
    new: "length new = k" "parse_loop ?n (table_stream d) [] = parse_loop (?n - k) sk new"
    by auto
  with parse_loop_at_end [OF at_end, of "?n - k" new]
  have loop: "parse_loop ?n (table_stream d) [] = Inr (new @ replicate (?n - k) zero_entry, sk)"
    by simp
  let ?m = "\<lparr>number_of_files = declared_count d,
             manifest_entries = new @ replicate (?n - k) zero_entry\<rparr>"
  have result: "create_manifest fs path = Inr ?m"
    using h by (auto simp: create_manifest_opened [OF opened] loop)
  have "0 \<le> declared_count d"
    by (simp add: declared_count_def int_from_bytes_little_nonneg)
  with h new(1) have count: "int (length (manifest_entries ?m)) = declared_count d"
    by simp
  have "manifest_entries ?m ! i = zero_entry" if range: "k \<le> i \<and> i < ?n" for i
  proof -
    from range have "i - k < ?n - k"
      by arith
    with range new(1) show ?thesis
      by (simp add: nth_append)
  qed
  with result count show "\<exists>m. create_manifest fs path = Inr m
           \<and> number_of_files m = declared_count d
           \<and> int (length (manifest_entries m)) = declared_count d
           \<and> (\<forall>i. k \<le> i \<and> i < nat (declared_count d) \<longrightarrow> manifest_entries m ! i = zero_entry)"
    by (intro exI [of _ ?m]) simp
qed

theorem truncated_reads_are_padded_witness:
  "((0::int) \<le> 4 \<and> length (data \<lparr>data = [1, 2], pos = 0\<rparr>) < pos \<lparr>data = [1, 2], pos = 0\<rparr> + nat 4)
   \<and> ([py ''a.far'' \<mapsto> cut_archive] (py ''a.far'') = Some cut_archive
      \<and> 0 \<notin> set (py ''a.far'')
      \<and> utf8_decode (padded cut_archive 0 8) \<noteq> None
      \<and> stream_after 1 (table_stream cut_archive) = Some \<lparr>data = cut_archive, pos = 37\<rparr>
      \<and> length cut_archive \<le> pos \<lparr>data = cut_archive, pos = 37\<rparr>
      \<and> 1 \<le> nat (declared_count cut_archive))
   \<and> convert_bytes 4 (py ''int'') \<lparr>data = [1, 2], pos = 0\<rparr>
       = Inr (PyInt (int_from_bytes_little (drop (pos \<lparr>data = [1, 2], pos = 0\<rparr>)
                                               (data \<lparr>data = [1, 2], pos = 0\<rparr>))),
              \<lparr>data = [1, 2], pos = 0\<rparr>
                \<lparr>pos := max (pos \<lparr>data = [1, 2], pos = 0\<rparr>)
                            (length (data \<lparr>data = [1, 2], pos = 0\<rparr>))\<rparr>)
   \<and> (\<exists>m. create_manifest [py ''a.far'' \<mapsto> cut_archive] (py ''a.far'') = Inr m
         \<and> number_of_files m = declared_count cut_archive
         \<and> int (length (manifest_entries m)) = declared_count cut_archive
         \<and> (\<forall>i. 1 \<le> i \<and> i < nat (declared_count cut_archive)
                \<longrightarrow> manifest_entries m ! i = zero_entry))"
proof -
  have short: "(0::int) \<le> 4
      \<and> length (data \<lparr>data = [1, 2], pos = 0\<rparr>) < pos \<lparr>data = [1, 2], pos = 0\<rparr> + nat 4"
    by simp
  have on_disk: "[py ''a.far'' \<mapsto> cut_archive] (py ''a.far'') = Some cut_archive"
    by simp
  have no_nul: "0 \<notin> set (py ''a.far'')"
    by (simp add: py_def)
  have signature: "utf8_decode (padded cut_archive 0 8) \<noteq> None"
    by code_simp
  have after_one: "stream_after 1 (table_stream cut_archive) = Some \<lparr>data = cut_archive, pos = 37\<rparr>"
    by code_simp
  have used_up: "length cut_archive \<le> pos \<lparr>data = cut_archive, pos = 37\<rparr>"
    by (simp add: cut_archive_def)
  have declared: "1 \<le> nat (declared_count cut_archive)"
    by code_simp
  note cut = on_disk no_nul signature after_one used_up declared
  from truncated_reads_are_padded
         [of 4 "\<lparr>data = [1, 2], pos = 0\<rparr>" "[py ''a.far'' \<mapsto> cut_archive]" "py ''a.far''"
             cut_archive 1 "\<lparr>data = cut_archive, pos = 37\<rparr>"]
       short cut
  show ?thesis
    by blast
qed

section \<open>C1: what is extracted is the range of the archive\<close>

lemma set_dropWhile_rev: "set (rev (dropWhile P (rev xs))) \<subseteq> set xs"
  using set_dropWhileD [of _ P "rev xs"] by auto

lemma set_dirname: "set (dirname p) \<subseteq> set p"
proof -
  let ?head = "rev (dropWhile (\<lambda>c. c \<noteq> slash) (rev p))"
  have head: "set ?head \<subseteq> set p"
    by (rule set_dropWhile_rev)
  have "set (rev (dropWhile (\<lambda>c. c = slash) (rev ?head))) \<subseteq> set ?head"
    by (rule set_dropWhile_rev)
  with head have stripped: "set (rev (dropWhile (\<lambda>c. c = slash) (rev ?head))) \<subseteq> set p"
    by blast
  have "dirname p = ?head \<or> dirname p = rev (dropWhile (\<lambda>c. c = slash) (rev ?head))"
    by (simp add: dirname_def Let_def)
  with head stripped show ?thesis
    by metis
qed

text \<open>
  C1. For every entry with non-negative \<open>file_offset\<close> and \<open>length\<close> (they are unsigned
  fields) and every archive that holds at least \<open>file_offset + length\<close> bytes, on a system
  that makes the directory of the output file (there is one to make: the joined path has
  a directory part) and accepts the write (the joined path names a file: it does not end
  in a slash and has no NUL character), \<open>extract_manifest_entry\<close> returns normally, prints
  nothing, and the output file, at \<open>os.path.join(output_path, file_name)\<close>, read back from
  the disk afterwards, holds exactly the \<open>length\<close> bytes of the archive that start at
  \<open>file_offset\<close>; no other file changes, and the cursor of the stream is left behind the
  range.
\<close>

theorem extract_round_trip:
  assumes nonneg: "0 \<le> file_offset entry" "0 \<le> length_field entry"
      and enough: "file_offset entry + length_field entry \<le> int (length (data s))"
      and has_dir: "dirname (path_join output_path (file_name entry)) \<noteq> []"
      and dir_made: "makedirs_oserror env (dirname (path_join output_path (file_name entry))) = None"
      and names_file: "\<not> ends_with_slash (path_join output_path (file_name entry))"
                      "0 \<notin> set (path_join output_path (file_name entry))"
      and accepted: "open_wb_outcome env (path_join output_path (file_name entry)) = Written"
  shows "extract_manifest_entry env entry output_path s w
           = (None,
              s\<lparr>pos := nat (file_offset entry) + nat (length_field entry)\<rparr>,
              w\<lparr>files := (files w)(path_join output_path (file_name entry) \<mapsto>
                   byte_slice (data s) (nat (file_offset entry)) (nat (length_field entry)))\<rparr>)
       \<and> files (snd (snd (extract_manifest_entry env entry output_path s w)))
            (path_join output_path (file_name entry))
           = Some (byte_slice (data s) (nat (file_offset entry)) (nat (length_field entry)))"
proof -
  let ?off = "nat (file_offset entry)" and ?len = "nat (length_field entry)"
  let ?path = "path_join output_path (file_name entry)"
  from nonneg enough have "?off + ?len \<le> length (data s)"
    by linarith
  then have "length (byte_slice (data s) ?off ?len) = ?len"
    by (simp add: length_slice)
  with get_bytes_nonneg [OF nonneg, of s]
  have read: "get_bytes (file_offset entry) (length_field entry) s
                = Inr (byte_slice (data s) ?off ?len, s\<lparr>pos := ?off + ?len\<rparr>)"
    by simp
  from names_file(2) set_dirname [of ?path] have "0 \<notin> set (dirname ?path)"
    by blast
  with has_dir dir_made have made: "makedirs env (dirname ?path) = None"
    by (simp add: makedirs_def)
  from has_dir have not_empty: "?path \<noteq> []"
    by (auto simp: dirname_def)
  show ?thesis
    by (simp add: extract_manifest_entry_def read made not_empty names_file accepted
          open_wb_write_def)
qed

theorem extract_round_trip_witness:
  "((0::int) \<le> 0 \<and> (0::int) \<le> 5 \<and> (0::int) + 5 \<le> int (length scenario_archive)
     \<and> dirname (path_join (py ''out'') (py ''a.txt'')) \<noteq> []
     \<and> makedirs_oserror willing_env (dirname (path_join (py ''out'') (py ''a.txt''))) = None
     \<and> \<not> ends_with_slash (path_join (py ''out'') (py ''a.txt''))
     \<and> 0 \<notin> set (path_join (py ''out'') (py ''a.txt''))
     \<and> open_wb_outcome willing_env (path_join (py ''out'') (py ''a.txt'')) = Written)
   \<and> fst (extract_manifest_entry willing_env
      \<lparr>length_field = 5, underscore_length = 5, file_offset = 0, file_name_length = 5,
        file_name = py ''a.txt''\<rparr>
      (py ''out'') \<lparr>data = scenario_archive, pos = 0\<rparr> scenario_world) = None
   \<and> files (snd (snd (extract_manifest_entry willing_env
      \<lparr>length_field = 5, underscore_length = 5, file_offset = 0, file_name_length = 5,
        file_name = py ''a.txt''\<rparr>
      (py ''out'') \<lparr>data = scenario_archive, pos = 0\<rparr> scenario_world)))
        (py ''out/a.txt'')
       = Some [0x53, 0x49, 0x4D, 0x53, 0x46]"
proof -
  let ?entry = "\<lparr>length_field = 5, underscore_length = 5, file_offset = 0, file_name_length = 5,
        file_name = py ''a.txt''\<rparr>"
  let ?s = "\<lparr>data = scenario_archive, pos = 0\<rparr>"
  have offset_ok: "0 \<le> file_offset ?entry" and length_ok: "0 \<le> length_field ?entry"
    by simp_all
  have enough: "file_offset ?entry + length_field ?entry \<le> int (length (data ?s))"
    by (simp add: scenario_archive_def)
  have has_dir: "dirname (path_join (py ''out'') (file_name ?entry)) \<noteq> []"
    by code_simp
  have dir_made: "makedirs_oserror willing_env (dirname (path_join (py ''out'') (file_name ?entry))) = None"
    by (simp add: willing_env_def)
  have no_slash: "\<not> ends_with_slash (path_join (py ''out'') (file_name ?entry))"
    by code_simp
  have no_nul: "0 \<notin> set (path_join (py ''out'') (file_name ?entry))"
    by code_simp
  have accepted: "open_wb_outcome willing_env (path_join (py ''out'') (file_name ?entry)) = Written"
    by (simp add: willing_env_def)
  note claim = extract_round_trip
     [OF offset_ok length_ok enough has_dir dir_made no_slash no_nul accepted, of scenario_world]
  have path: "path_join (py ''out'') (file_name ?entry) = py ''out/a.txt''"
    by code_simp
  have range: "byte_slice (data ?s) (nat (file_offset ?entry)) (nat (length_field ?entry))
                 = [0x53, 0x49, 0x4D, 0x53, 0x46]"
    by code_simp
  from claim have returned: "fst (extract_manifest_entry willing_env ?entry (py ''out'') ?s scenario_world) = None"
    by simp
  from claim path range have read_back:
    "files (snd (snd (extract_manifest_entry willing_env ?entry (py ''out'') ?s scenario_world)))
        (py ''out/a.txt'') = Some [0x53, 0x49, 0x4D, 0x53, 0x46]"
    by simp
  from offset_ok length_ok enough has_dir dir_made no_slash no_nul accepted
  have given: "(0::int) \<le> 0 \<and> (0::int) \<le> 5 \<and> (0::int) + 5 \<le> int (length scenario_archive)
     \<and> dirname (path_join (py ''out'') (py ''a.txt'')) \<noteq> []
     \<and> makedirs_oserror willing_env (dirname (path_join (py ''out'') (py ''a.txt''))) = None
     \<and> \<not> ends_with_slash (path_join (py ''out'') (py ''a.txt''))
     \<and> 0 \<notin> set (path_join (py ''out'') (py ''a.txt''))
     \<and> open_wb_outcome willing_env (path_join (py ''out'') (py ''a.txt'')) = Written"
    by simp
  from given returned read_back show ?thesis
    by blast
qed

section \<open>C3: where the output file is written\<close>

lemma split_slash_nonempty: "split_slash p \<noteq> []"
  by (induction p) (auto split: list.splits)

lemma split_slash_append: "split_slash (a @ slash # b) = split_slash a @ split_slash b"
proof (induction a)
  case Nil
  show ?case by simp
next
  case (Cons c a)
  obtain x xs where sp: "split_slash a = x # xs"
    using split_slash_nonempty [of a] by (cases "split_slash a") auto
  with Cons show ?case by simp
qed

lemma norm_step_plain:
  assumes "part \<noteq> py ''..''"
  shows "norm_step i comps part = (if part = [] \<or> part = py ''.'' then comps else comps @ [part])"
  using assms by (simp add: norm_step_def)

lemma foldl_norm_step_plain:
  assumes "py ''..'' \<notin> set parts"
  shows "foldl (norm_step i) comps parts
           = comps @ filter (\<lambda>q. q \<noteq> [] \<and> q \<noteq> py ''.'') parts"
  using assms
proof (induction parts arbitrary: comps)
  case Nil
  show ?case by simp
next
  case (Cons q parts)
  then have "q \<noteq> py ''..''" and rest: "py ''..'' \<notin> set parts"
    by auto
  then show ?case
    using Cons.IH [OF rest] by (simp add: norm_step_plain)
qed

lemma starts_with_slash_append:
  assumes "a \<noteq> []"
  shows "starts_with_slash (a @ b) = starts_with_slash a"
  using assms by (cases a) (simp_all add: starts_with_slash_def)

lemma ends_with_slash_snoc:
  assumes "ends_with_slash a"
  shows "\<exists>r. a = r @ [slash]"
proof -
  from assms obtain rest where "rev a = slash # rest"
    by (auto simp: ends_with_slash_def split: list.splits)
  then have "a = rev rest @ [slash]"
    by (simp add: rev_swap)
  then show ?thesis ..
qed

lemma normpath_comps_trailing_slash:
  "normpath_comps (r @ [slash]) = foldl (norm_step (starts_with_slash (r @ [slash]))) [] (split_slash r)"
  using split_slash_append [of r "[]"] by (simp add: normpath_comps_def norm_step_def)


lemma normpath_comps_join:
  assumes rel: "\<not> starts_with_slash name"
      and plain: "py ''..'' \<notin> set (split_slash name)"
  shows "starts_with_slash (path_join root name) = starts_with_slash root
       \<and> normpath_comps (path_join root name)
           = normpath_comps root @ filter (\<lambda>q. q \<noteq> [] \<and> q \<noteq> py ''.'') (split_slash name)"
proof (cases "root = []")
  case True
  then have "path_join root name = name"
    by (simp add: path_join_def)
  moreover have "normpath_comps [] = []"
    by (simp add: normpath_comps_def norm_step_def)
  moreover have "starts_with_slash [] = False"
    by (simp add: starts_with_slash_def)
  ultimately show ?thesis
    using True rel by (simp add: normpath_comps_def foldl_norm_step_plain [OF plain])
next
  case False
  let ?i = "starts_with_slash root"
  show ?thesis
  proof (cases "ends_with_slash root")
    case True
    then obtain r where r: "root = r @ [slash]"
      using ends_with_slash_snoc by blast
    have joined: "path_join root name = r @ slash # name"
      using rel False True r by (simp add: path_join_def)
    then have same: "starts_with_slash (path_join root name) = ?i"
      using starts_with_slash_append [OF False, of name] r by simp
    have root_comps: "normpath_comps root = foldl (norm_step ?i) [] (split_slash r)"
      using normpath_comps_trailing_slash [of r] r by simp
    have "normpath_comps (path_join root name)
            = foldl (norm_step ?i) [] (split_slash r @ split_slash name)"
      using same joined by (simp add: normpath_comps_def split_slash_append)
    also have "\<dots> = normpath_comps root @ filter (\<lambda>q. q \<noteq> [] \<and> q \<noteq> py ''.'') (split_slash name)"
      by (simp add: root_comps foldl_norm_step_plain [OF plain])
    finally show ?thesis
      using same by simp
  next
    case no_slash: False
    have joined: "path_join root name = root @ slash # name"
      using rel False no_slash by (simp add: path_join_def)
    then have same: "starts_with_slash (path_join root name) = ?i"
      using starts_with_slash_append [OF False, of "slash # name"] by simp
    have "normpath_comps (path_join root name)
            = foldl (norm_step ?i) [] (split_slash root @ split_slash name)"
      using same joined by (simp add: normpath_comps_def split_slash_append)
    also have "\<dots> = normpath_comps root @ filter (\<lambda>q. q \<noteq> [] \<and> q \<noteq> py ''.'') (split_slash name)"
      by (simp add: normpath_comps_def foldl_norm_step_plain [OF plain])
    finally show ?thesis
      using same by simp
  qed
qed

lemma lies_under_join:
  assumes rel: "\<not> starts_with_slash name"
      and plain: "py ''..'' \<notin> set (split_slash name)"
  shows "lies_under root (path_join root name)"
proof -
  from plain have "py ''..'' \<notin> set (filter (\<lambda>q. q \<noteq> [] \<and> q \<noteq> py ''.'') (split_slash name))"
    by simp
  with normpath_comps_join [OF rel plain, of root] show ?thesis
    by (simp add: lies_under_def)
qed

lemma path_join_empty_name:
  "path_join root [] = [] \<or> ends_with_slash (path_join root [])"
  by (auto simp: path_join_def ends_with_slash_def starts_with_slash_def)

lemma extract_manifest_entry_touches:
  assumes "files (snd (snd (extract_manifest_entry env entry output_path s w))) p \<noteq> files w p"
  shows "p = path_join output_path (file_name entry)"
  using assms
  by (auto simp: extract_manifest_entry_def Let_def open_wb_write_def
        split: sum.splits option.splits io_outcome.splits if_splits prod.splits)

lemma extract_manifest_entry_empty_name:
  assumes "file_name entry = []"
  shows "files (snd (snd (extract_manifest_entry env entry output_path s w))) = files w"
  using path_join_empty_name [of output_path] assms
  by (auto simp: extract_manifest_entry_def Let_def open_wb_write_def
        split: sum.splits option.splits prod.splits)

text \<open>
  C3, as stated, fails: with the output root \<open>out\<close>, the entry named \<open>../evil\<close> is written
  at \<open>out/../evil\<close>, beside the root and not under it, and the entry named \<open>/tmp/evil\<close> is
  written at \<open>/tmp/evil\<close>.
\<close>

theorem path_traversal_counterexample:
  "fst (extract_manifest_entry willing_env
          \<lparr>length_field = 2, underscore_length = 2, file_offset = 0, file_name_length = 7,
            file_name = py ''../evil''\<rparr>
          (py ''out'') \<lparr>data = scenario_archive, pos = 0\<rparr> scenario_world) = None
   \<and> files (snd (snd (extract_manifest_entry willing_env
          \<lparr>length_field = 2, underscore_length = 2, file_offset = 0, file_name_length = 7,
            file_name = py ''../evil''\<rparr>
          (py ''out'') \<lparr>data = scenario_archive, pos = 0\<rparr> scenario_world)))
        (py ''out/../evil'') = Some [0x53, 0x49]
   \<and> files scenario_world (py ''out/../evil'') = None
   \<and> \<not> lies_under (py ''out'') (py ''out/../evil'')
   \<and> files (snd (snd (extract_manifest_entry willing_env
          \<lparr>length_field = 2, underscore_length = 2, file_offset = 0, file_name_length = 9,
            file_name = py ''/tmp/evil''\<rparr>
          (py ''out'') \<lparr>data = scenario_archive, pos = 0\<rparr> scenario_world)))
        (py ''/tmp/evil'') = Some [0x53, 0x49]
   \<and> files scenario_world (py ''/tmp/evil'') = None
   \<and> \<not> lies_under (py ''out'') (py ''/tmp/evil'')"
  by code_simp

text \<open>
  C3, amended. With the paths of a POSIX system (\<open>os.path\<close> is \<open>posixpath\<close>): for every
  entry, the only file whose contents \<open>extract_manifest_entry\<close> changes is the one at
  \<open>os.path.join(output_path, file_name)\<close>, and that file lies under the output root
  whenever \<open>file_name\<close> does not begin with a slash and has no \<open>..\<close> component; an entry
  whose \<open>file_name\<close> is empty changes no file at all (the joined path is empty or ends in
  a slash, and the system refuses it).
\<close>

theorem written_file_is_joined_path:
  "(files (snd (snd (extract_manifest_entry env entry output_path s w))) p \<noteq> files w p
      \<longrightarrow> p = path_join output_path (file_name entry)
          \<and> (\<not> starts_with_slash (file_name entry)
               \<and> py ''..'' \<notin> set (split_slash (file_name entry))
              \<longrightarrow> lies_under output_path p))
   \<and> files (snd (snd (extract_manifest_entry env (entry\<lparr>file_name := []\<rparr>) output_path s w)))
       = files w"
proof -
  have empty_name:
    "files (snd (snd (extract_manifest_entry env (entry\<lparr>file_name := []\<rparr>) output_path s w)))
       = files w"
    by (rule extract_manifest_entry_empty_name) simp
  with extract_manifest_entry_touches [of env entry output_path s w p]
       lies_under_join [of "file_name entry" output_path]
  show ?thesis
    by blast
qed

theorem written_file_is_joined_path_witness:
  "files (snd (snd (extract_manifest_entry willing_env
          \<lparr>length_field = 3, underscore_length = 3, file_offset = 5, file_name_length = 9,
        file_name = py ''dir/b.txt''\<rparr>
          (py ''out'') \<lparr>data = scenario_archive, pos = 0\<rparr> scenario_world)))
        (py ''out/dir/b.txt'')
     \<noteq> files scenario_world (py ''out/dir/b.txt'')
   \<and> \<not> starts_with_slash (py ''dir/b.txt'')
   \<and> py ''..'' \<notin> set (split_slash (py ''dir/b.txt''))
   \<and> py ''out/dir/b.txt'' = path_join (py ''out'') (py ''dir/b.txt'')
   \<and> lies_under (py ''out'') (py ''out/dir/b.txt'')"
proof -
  let ?entry = "\<lparr>length_field = 3, underscore_length = 3, file_offset = 5, file_name_length = 9,
        file_name = py ''dir/b.txt''\<rparr>"
  let ?s = "\<lparr>data = scenario_archive, pos = 0\<rparr>"
  have changed:
    "files (snd (snd (extract_manifest_entry willing_env ?entry (py ''out'') ?s scenario_world)))
        (py ''out/dir/b.txt'')
     \<noteq> files scenario_world (py ''out/dir/b.txt'')"
    by code_simp
  have relative: "\<not> starts_with_slash (file_name ?entry)"
    by code_simp
  have plain: "py ''..'' \<notin> set (split_slash (file_name ?entry))"
    by code_simp
  note claim = written_file_is_joined_path
                 [of willing_env ?entry "py ''out''" ?s scenario_world "py ''out/dir/b.txt''"]
  from claim changed have joined: "py ''out/dir/b.txt'' = path_join (py ''out'') (file_name ?entry)"
    by blast
  from claim changed relative plain have under: "lies_under (py ''out'') (py ''out/dir/b.txt'')"
    by blast
  from relative have relative': "\<not> starts_with_slash (py ''dir/b.txt'')"
    by simp
  from plain have plain': "py ''..'' \<notin> set (split_slash (py ''dir/b.txt''))"
    by simp
  from joined have joined': "py ''out/dir/b.txt'' = path_join (py ''out'') (py ''dir/b.txt'')"
    by simp
  from changed relative' plain' joined' under show ?thesis
    by (intro conjI)
qed

section \<open>C4: a failure while one entry is extracted\<close>

text \<open>
  What the \<open>try\<close> of \<open>extract_manifest_entry\<close> achieves: as long as the range can be read,
  the directory can be created and the path has no NUL character, nothing escapes an
  entry, whatever happens when the output file is opened and written; so the loop of
  \<open>extract_manifest_files\<close> reaches every entry.
\<close>

lemma extract_manifest_entry_survives:
  assumes "0 \<le> file_offset e" "0 \<le> length_field e"
      and "makedirs env (dirname (path_join out (file_name e))) = None"
      and "0 \<notin> set (path_join out (file_name e))"
  shows "fst (extract_manifest_entry env e out s w) = None"
  using assms
  by (simp add: extract_manifest_entry_def get_bytes_nonneg open_wb_write_def Let_def
        split: io_outcome.splits)

lemma extract_loop_survives:
  assumes "\<forall>e \<in> set es. 0 \<le> file_offset e \<and> 0 \<le> length_field e
             \<and> makedirs env (dirname (path_join out (file_name e))) = None
             \<and> 0 \<notin> set (path_join out (file_name e))"
  shows "fst (extract_loop env es out s w) = None"
  using assms
proof (induction es arbitrary: s w)
  case Nil
  show ?case by simp
next
  case (Cons e es)
  then have "fst (extract_manifest_entry env e out s w) = None"
    by (simp add: extract_manifest_entry_survives)
  then obtain s' w' where "extract_manifest_entry env e out s w = (None, s', w')"
    by (cases "extract_manifest_entry env e out s w") auto
  with Cons show ?case
    by simp
qed

text \<open>
  C4 says that a write failure of one entry (permissions, disk full, invalid path) is
  reported for that entry only and never ends the batch. The code does this for an
  \<open>OSError\<close> raised inside the \<open>try\<close>: when \<open>out/dir/b.txt\<close> cannot be opened, two lines are
  printed and \<open>a.txt\<close>, the entry after it, is still extracted. It does not for the two
  failures evaluated here. An invalid path: the name with a NUL character makes \<open>open\<close>
  raise \<open>ValueError\<close>, which \<open>except IOError\<close> lets through; nothing is printed, the batch
  ends, and \<open>b.txt\<close> is not extracted, though alone it is. A permission failure one
  statement before the \<open>try\<close>: when \<open>os.makedirs\<close> cannot create \<open>out/dir\<close>, the \<open>OSError\<close>
  ends the batch and \<open>a.txt\<close> is not extracted.
\<close>

theorem entry_failure_aborts_batch:
  "fst (extract_manifest_files willing_env nul_name_manifest (py ''out'') (py ''a.far'') scenario_world)
     = Some (ValueError ''embedded null byte'')
   \<and> stdout (snd (extract_manifest_files willing_env nul_name_manifest (py ''out'') (py ''a.far'')
                    scenario_world)) = []
   \<and> files (snd (extract_manifest_files willing_env nul_name_manifest (py ''out'') (py ''a.far'')
                   scenario_world)) (py ''out/b.txt'') = None
   \<and> files (snd (extract_manifest_files willing_env b_only_manifest (py ''out'') (py ''a.far'')
                   scenario_world)) (py ''out/b.txt'') = Some [0x41, 0x52, 0x20]
   \<and> fst (extract_manifest_files no_mkdir_env reversed_manifest (py ''out'') (py ''a.far'')
             scenario_world) = Some (OSError ''Permission denied'')
   \<and> files (snd (extract_manifest_files no_mkdir_env reversed_manifest (py ''out'') (py ''a.far'')
                   scenario_world)) (py ''out/a.txt'') = None
   \<and> fst (extract_manifest_files no_open_env reversed_manifest (py ''out'') (py ''a.far'')
             scenario_world) = None
   \<and> stdout (snd (extract_manifest_files no_open_env reversed_manifest (py ''out'') (py ''a.far'')
                    scenario_world))
       = [py ''Error writing to file: out/dir/b.txt'', py ''Error: Permission denied'']
   \<and> files (snd (extract_manifest_files no_open_env reversed_manifest (py ''out'') (py ''a.far'')
                   scenario_world)) (py ''out/a.txt'') = Some [0x53, 0x49, 0x4D, 0x53, 0x46]"
  by code_simp

end
